theory Spec2Isabelle
  imports Main "HOL-Library.Sublist"
begin

section \<open>RoadMail: data model (mail.py, lines 24-81)\<close>

text \<open>
  The enumeration \<open>EmailStatus\<close> and the dataclasses \<open>Attachment\<close>,
  \<open>EmailAddress\<close>, \<open>Email\<close> and \<open>EmailTemplate\<close>. Python strings and
  bytes are \<open>string\<close>; a \<open>datetime\<close> is an integer on the time line; a dict is
  an association list in insertion order with distinct keys.
\<close>

datatype EmailStatus = PENDING | SENDING | SENT | FAILED | BOUNCED | DELIVERED | OPENED | CLICKED

record Attachment =
  filename :: string
  content :: string
  content_type :: string

record EmailAddress =
  email :: string
  name :: string

text \<open>\<open>EmailAddress.__str__\<close> (lines 47-50).\<close>

definition str_addr :: "EmailAddress \<Rightarrow> string" where
  "str_addr a = (if name a \<noteq> [] then name a @ '' <'' @ email a @ ''>'' else email a)"

record Email =
  email_id :: string
  to :: "EmailAddress list"
  subject :: string
  body_text :: string
  body_html :: string
  from_addr :: "EmailAddress option"
  reply_to :: "EmailAddress option"
  cc :: "EmailAddress list"
  bcc :: "EmailAddress list"
  attachments :: "Attachment list"
  headers :: "(string \<times> string) list"
  status :: EmailStatus
  created_at :: int
  sent_at :: "int option"
  error :: "string option"
  tracking_id :: "string option"
  metadata :: "(string \<times> string) list"

record EmailTemplate =
  t_id :: string
  t_name :: string
  t_subject :: string
  t_body_text :: string
  t_body_html :: string
  variables :: "string list"

section \<open>Dictionaries\<close>

text \<open>
  \<open>d.get(k)\<close>, \<open>d[k] = v\<close> and \<open>k in d\<close> on an insertion-ordered dict: an
  assignment to a key that is present replaces the value in place, a new key is
  appended.
\<close>

fun dict_get :: "('k \<times> 'v) list \<Rightarrow> 'k \<Rightarrow> 'v option" where
  "dict_get [] k = None"
| "dict_get ((k', v) # d) k = (if k' = k then Some v else dict_get d k)"

fun dict_set :: "('k \<times> 'v) list \<Rightarrow> 'k \<Rightarrow> 'v \<Rightarrow> ('k \<times> 'v) list" where
  "dict_set [] k v = [(k, v)]"
| "dict_set ((k', v') # d) k v = (if k' = k then (k, v) # d else (k', v') # dict_set d k v)"


section \<open>Strings\<close>

text \<open>
  \<open>old in s\<close>: the string \<open>old\<close> occurs in \<open>s\<close> as a contiguous substring.
\<close>

fun occurs :: "string \<Rightarrow> string \<Rightarrow> bool" where
  "occurs old [] = (old = [])"
| "occurs old (c # cs) = (prefix old (c # cs) \<or> occurs old cs)"

text \<open>
  \<open>s.replace(old, new)\<close>: scanning from the left, each occurrence of \<open>old\<close> found
  is replaced by \<open>new\<close> and the scan resumes behind it, so the occurrences replaced
  do not overlap. For the empty \<open>old\<close> Python inserts \<open>new\<close> before every
  character and at the end.
\<close>

function str_replace :: "string \<Rightarrow> string \<Rightarrow> string \<Rightarrow> string" where
  "str_replace s old new =
     (if old = [] then new @ concat (map (\<lambda>c. c # new) s)
      else if s = [] then []
      else if prefix old s then new @ str_replace (drop (length old) s) old new
      else hd s # str_replace (tl s) old new)"
  by pat_completeness auto
termination
  by (relation "measure (\<lambda>(s, old, new). length s)") auto

declare str_replace.simps [simp del]

text \<open>\<open>str(value)\<close> for the context values a template is rendered with.\<close>

datatype pyval = PStr string | PInt int | PBool bool | PNone

fun str_nat :: "nat \<Rightarrow> string" where
  "str_nat n = (if n < 10 then [''0123456789'' ! n]
                else str_nat (n div 10) @ [''0123456789'' ! (n mod 10)])"

declare str_nat.simps [simp del]

definition str_int :: "int \<Rightarrow> string" where
  "str_int i = (if i < 0 then CHR ''-'' # str_nat (nat (- i)) else str_nat (nat i))"

fun py_str :: "pyval \<Rightarrow> string" where
  "py_str (PStr s) = s"
| "py_str (PInt i) = str_int i"
| "py_str (PBool b) = (if b then ''True'' else ''False'')"
| "py_str PNone = ''None''"

section \<open>EmailTemplate.render (lines 83-94)\<close>

text \<open>The f-string \<open>f"{{{{{key}}}}}"\<close>: two opening braces, the key, two closing braces.\<close>

definition placeholder :: "string \<Rightarrow> string" where
  "placeholder key = ''{{'' @ key @ ''}}''"

text \<open>
  The loop over \<open>context.items()\<close>, with the three local variables as accumulators.
\<close>

fun render_loop :: "(string \<times> pyval) list \<Rightarrow> string \<Rightarrow> string \<Rightarrow> string \<Rightarrow> string \<times> string \<times> string" where
  "render_loop [] subj btext bhtml = (subj, btext, bhtml)"
| "render_loop ((key, val) # items) subj btext bhtml =
     render_loop items
       (str_replace subj (placeholder key) (py_str val))
       (str_replace btext (placeholder key) (py_str val))
       (str_replace bhtml (placeholder key) (py_str val))"

definition render :: "EmailTemplate \<Rightarrow> (string \<times> pyval) list \<Rightarrow> string \<times> string \<times> string" where
  "render t context = render_loop context (t_subject t) (t_body_text t) (t_body_html t)"

subsection \<open>What the specification says of rendering\<close>

text \<open>
  The specification's reading of one substitution, independent of the scan in
  \<open>str_replace\<close>: either \<open>old\<close> does not occur and the string is returned as it
  is, or the string splits at the leftmost occurrence of \<open>old\<close> (no occurrence
  starts inside \<open>a\<close>), that occurrence becomes \<open>new\<close>, and every occurrence in
  the rest is replaced in the same way.
\<close>

inductive replaces_every :: "string \<Rightarrow> string \<Rightarrow> string \<Rightarrow> string \<Rightarrow> bool"
  for old new :: string where
  absent: "\<not> occurs old s \<Longrightarrow> replaces_every old new s s"
| leftmost: "\<not> occurs old (a @ butlast old) \<Longrightarrow> replaces_every old new b r \<Longrightarrow>
     replaces_every old new (a @ old @ b) (a @ new @ r)"

text \<open>
  One field rendered against the context: the keys are taken in the order of the
  mapping, and each one has every occurrence of its placeholder replaced by the
  stringified value.
\<close>

inductive renders :: "(string \<times> pyval) list \<Rightarrow> string \<Rightarrow> string \<Rightarrow> bool" where
  no_items: "renders [] s s"
| next_item: "replaces_every (placeholder key) (py_str val) s s' \<Longrightarrow> renders items s' r \<Longrightarrow>
     renders ((key, val) # items) s r"

text \<open>The same as a function of one field, for the proofs.\<close>

fun replace_all_keys :: "(string \<times> pyval) list \<Rightarrow> string \<Rightarrow> string" where
  "replace_all_keys [] s = s"
| "replace_all_keys ((key, val) # items) s =
     replace_all_keys items (str_replace s (placeholder key) (py_str val))"

text \<open>
  A string holds a placeholder token when two opening braces are followed, anywhere
  later, by two closing braces.
\<close>

fun has_token :: "string \<Rightarrow> bool" where
  "has_token [] = False"
| "has_token (c # cs) = ((prefix ''{{'' (c # cs) \<and> occurs ''}}'' (drop 2 (c # cs))) \<or> has_token cs)"

section \<open>The world outside the mailer\<close>

text \<open>
  Exceptions are values. \<open>TypeError\<close>, \<open>AttributeError\<close> and \<open>OtherError\<close> (any
  other class derived from \<open>Exception\<close>, such as an SMTP or a socket error) are
  instances of \<open>Exception\<close>, the class that the \<open>except\<close> clauses of
  \<open>Mailer.send\<close>, \<open>Mailer._emit\<close> and \<open>SMTPTransport.send\<close> name;
  \<open>SystemExit\<close> and \<open>KeyboardInterrupt\<close> derive from \<open>BaseException\<close> only and
  pass these clauses. \<open>str_exn\<close> is \<open>str(e)\<close>.
\<close>

datatype exn =
  TypeError string | AttributeError string | OtherError string
| SystemExit string | KeyboardInterrupt

fun is_Exception :: "exn \<Rightarrow> bool" where
  "is_Exception (TypeError s) = True"
| "is_Exception (AttributeError s) = True"
| "is_Exception (OtherError s) = True"
| "is_Exception (SystemExit s) = False"
| "is_Exception KeyboardInterrupt = False"

fun str_exn :: "exn \<Rightarrow> string" where
  "str_exn (TypeError s) = s"
| "str_exn (AttributeError s) = s"
| "str_exn (OtherError s) = s"
| "str_exn (SystemExit s) = s"
| "str_exn KeyboardInterrupt = []"

text \<open>
  \<open>Email\<close> objects are mutable and shared: the mailer's table, the list of a
  \<open>MockTransport\<close> and whatever a hook keeps all hold the object itself. A
  reference is the identity of an object, and the heap gives each object its current
  value.
\<close>

type_synonym ref = nat

type_synonym heap = "ref \<Rightarrow> Email"

text \<open>
  A hook or a transport's \<open>send\<close> is a Python callable that is handed one
  \<open>Email\<close> object. It may change that object and any other \<open>Email\<close> object
  it has kept (the heap it returns), change state of its own (\<open>'w\<close>: a socket, a
  list of captured messages, a counter), and return or raise. What it did before
  raising stays done. A callable has no access to the mailer itself.
\<close>

type_synonym 'w callable = "ref \<Rightarrow> heap \<Rightarrow> 'w \<Rightarrow> exn option \<times> heap \<times> 'w"

text \<open>
  The calls the mailer makes are recorded: a handler by event name and position in
  the event's list, and the transport; each with the object handed over, its value
  when the call began and its value when the call ended.
\<close>

datatype event = Hook_call string nat ref Email Email | Transport_call ref Email Email

fun event_ref :: "event \<Rightarrow> ref" where
  "event_ref (Hook_call ev i r before after) = r"
| "event_ref (Transport_call r before after) = r"

fun event_statuses :: "event \<Rightarrow> EmailStatus list" where
  "event_statuses (Hook_call ev i r before after) = [status before, status after]"
| "event_statuses (Transport_call r before after) = [status before, status after]"

fun event_label :: "event \<Rightarrow> string \<times> nat" where
  "event_label (Hook_call ev i r before after) = (ev, i)"
| "event_label (Transport_call r before after) = (''transport'', 0)"

fun is_transport_call :: "event \<Rightarrow> bool" where
  "is_transport_call (Hook_call ev i r before after) = False"
| "is_transport_call (Transport_call r before after) = True"

record 'w world =
  ext :: 'w
  heap :: heap
  next_ref :: ref
  logs :: "string list"
  trace :: "event list"
  uuids_drawn :: nat
  clock_reads :: nat

text \<open>
  \<open>uuid.uuid4()\<close> and \<open>datetime.now()\<close> are inputs: the \<open>k\<close>-th UUID drawn, as
  the string \<open>str\<close> gives, and the \<open>k\<close>-th reading of the clock.
\<close>

record env =
  uuid4 :: "nat \<Rightarrow> string"
  now :: "nat \<Rightarrow> int"

section \<open>Transports (lines 97-153)\<close>

record SMTPTransport =
  host :: string
  port :: int
  username :: string
  password :: string
  use_tls :: bool

text \<open>
  The libraries \<open>email.mime\<close>, \<open>smtplib\<close> and \<open>logging\<close> as \<open>SMTPTransport.send\<close>
  uses them: assembling the MIME message (lines 106-129, before the \<open>try\<close>),
  connecting, STARTTLS, login, \<open>msg.as_string()\<close> and \<open>sendmail\<close> with the
  envelope sender, the envelope recipients and the message (line 139), leaving the
  \<open>with\<close> block, and \<open>logger.error\<close>.
\<close>

record 'w smtplib =
  mime_assemble :: "Email \<Rightarrow> exn option"
  smtp_connect :: "string \<Rightarrow> int \<Rightarrow> 'w \<Rightarrow> exn option \<times> 'w"
  smtp_starttls :: "'w \<Rightarrow> exn option \<times> 'w"
  smtp_login :: "string \<Rightarrow> string \<Rightarrow> 'w \<Rightarrow> exn option \<times> 'w"
  as_string :: "Email \<Rightarrow> exn + string"
  smtp_sendmail :: "string \<Rightarrow> string list \<Rightarrow> string \<Rightarrow> 'w \<Rightarrow> exn option \<times> 'w"
  smtp_exit :: "'w \<Rightarrow> 'w"
  log_error :: "string \<Rightarrow> 'w \<Rightarrow> 'w"

text \<open>Line 138: \<open>[addr.email for addr in email.to + email.cc + email.bcc]\<close>.\<close>

definition smtp_recipients :: "Email \<Rightarrow> string list" where
  "smtp_recipients e = map email (to e @ cc e @ bcc e)"

text \<open>
  The \<open>with\<close> block, lines 132-139. In line 139 the arguments are evaluated from
  the left: \<open>email.from_addr.email\<close> raises AttributeError when the sender is None,
  then comes \<open>msg.as_string()\<close>, then the call of \<open>sendmail\<close>.
\<close>

definition smtp_session :: "'w smtplib \<Rightarrow> SMTPTransport \<Rightarrow> Email \<Rightarrow> 'w \<Rightarrow> exn option \<times> 'w" where
  "smtp_session lib t e x =
     (case smtp_connect lib (host t) (port t) x of
        (Some err, x1) \<Rightarrow> (Some err, x1)
      | (None, x1) \<Rightarrow>
          (case (if use_tls t then smtp_starttls lib x1 else (None, x1)) of
             (Some err, x2) \<Rightarrow> (Some err, smtp_exit lib x2)
           | (None, x2) \<Rightarrow>
               (case (if username t \<noteq> [] then smtp_login lib (username t) (password t) x2
                      else (None, x2)) of
                  (Some err, x3) \<Rightarrow> (Some err, smtp_exit lib x3)
                | (None, x3) \<Rightarrow>
                    (let recipients = smtp_recipients e in
                     case from_addr e of
                       None \<Rightarrow>
                         (Some (AttributeError
                            (CHR 0x27 # ''NoneType'' @ CHR 0x27 # '' object has no attribute ''
                             @ CHR 0x27 # ''email'' @ [CHR 0x27])),
                          smtp_exit lib x3)
                     | Some sender \<Rightarrow>
                         (case as_string lib e of
                            Inl err \<Rightarrow> (Some err, smtp_exit lib x3)
                          | Inr msg \<Rightarrow>
                              (case smtp_sendmail lib (email sender) recipients msg x3 of
                                 (r, x4) \<Rightarrow> (r, smtp_exit lib x4)))))))"

text \<open>
  \<open>SMTPTransport.send\<close> (lines 105-143): an exception of the assembly is raised as
  it is; an instance of \<open>Exception\<close> raised in the \<open>with\<close> block is logged and
  raised again. The message itself is not changed.
\<close>

definition SMTPTransport_send :: "'w smtplib \<Rightarrow> SMTPTransport \<Rightarrow> 'w callable" where
  "SMTPTransport_send lib t r h x =
     (case mime_assemble lib (h r) of
        Some err \<Rightarrow> (Some err, h, x)
      | None \<Rightarrow>
          (case smtp_session lib t (h r) x of
             (None, x1) \<Rightarrow> (None, h, x1)
           | (Some err, x1) \<Rightarrow>
               (Some err, h,
                if is_Exception err then log_error lib (''SMTP error: '' @ str_exn err) x1
                else x1)))"

text \<open>
  An SMTP library that accepts everything and records each \<open>sendmail\<close> call: the
  state is the list of (sender, recipients, message) submitted so far.
\<close>

definition recording_smtp :: "(string \<times> string list \<times> string) list smtplib" where
  "recording_smtp =
     \<lparr>mime_assemble = (\<lambda>e. None),
      smtp_connect = (\<lambda>h p x. (None, x)),
      smtp_starttls = (\<lambda>x. (None, x)),
      smtp_login = (\<lambda>u p x. (None, x)),
      as_string = (\<lambda>e. Inr (subject e)),
      smtp_sendmail = (\<lambda>sender rcpts msg x. (None, x @ [(sender, rcpts, msg)])),
      smtp_exit = (\<lambda>x. x),
      log_error = (\<lambda>line x. x)\<rparr>"

text \<open>
  \<open>MockTransport.send\<close> (lines 150-153): the state is its list \<open>sent_emails\<close>, to
  which the object itself is appended; its \<open>logger.info\<close> line is not modelled.
\<close>

definition MockTransport_send :: "ref list callable" where
  "MockTransport_send r h sent = (None, h, sent @ [r])"

section \<open>Mailer (lines 156-240)\<close>

text \<open>The table \<open>sent_emails\<close> maps an id to the \<open>Email\<close> object stored under it.\<close>

record 'w Mailer =
  transport :: "'w callable"
  default_from :: EmailAddress
  templates :: "(string \<times> EmailTemplate) list"
  sent_emails :: "(string \<times> ref) list"
  hooks :: "(string \<times> 'w callable list) list"

text \<open>
  \<open>__init__\<close> (lines 157-164). The transport is given; \<open>Mailer()\<close> is
  \<open>Mailer_init MockTransport_send None\<close>.
\<close>

definition Mailer_init :: "'w callable \<Rightarrow> EmailAddress option \<Rightarrow> 'w Mailer" where
  "Mailer_init tr dflt =
     \<lparr>transport = tr,
      default_from = (case dflt of None \<Rightarrow> \<lparr>email = ''noreply@example.com'', name = []\<rparr>
                      | Some a \<Rightarrow> a),
      templates = [],
      sent_emails = [],
      hooks = [(''before_send'', []), (''after_send'', []), (''on_error'', [])]\<rparr>"

definition add_hook :: "'w Mailer \<Rightarrow> string \<Rightarrow> 'w callable \<Rightarrow> 'w Mailer" where
  "add_hook m event handler =
     (case dict_get (hooks m) event of
        None \<Rightarrow> m
      | Some hs \<Rightarrow> m\<lparr>hooks := dict_set (hooks m) event (hs @ [handler])\<rparr>)"

text \<open>
  The loop of \<open>_emit\<close> (lines 171-175): each handler is called with the same object;
  an instance of \<open>Exception\<close> that it raises is logged and the loop goes on, any
  other exception leaves the loop and \<open>_emit\<close>. The result is the exception that
  left, if any.
\<close>

fun run_handlers :: "string \<Rightarrow> nat \<Rightarrow> 'w callable list \<Rightarrow> ref \<Rightarrow> 'w world \<Rightarrow> exn option \<times> 'w world" where
  "run_handlers event i [] r w = (None, w)"
| "run_handlers event i (handler # rest) r w =
     (case handler r (heap w) (ext w) of
        (p, h1, x1) \<Rightarrow>
          (let w1 = w\<lparr>ext := x1, heap := h1,
                      trace := trace w @ [Hook_call event i r (heap w r) (h1 r)]\<rparr>
           in case p of
                None \<Rightarrow> run_handlers event (Suc i) rest r w1
              | Some err \<Rightarrow>
                  if is_Exception err
                  then run_handlers event (Suc i) rest r
                         (w1\<lparr>logs := logs w1 @ [''Hook error: '' @ str_exn err]\<rparr>)
                  else (Some err, w1)))"

definition emit :: "'w Mailer \<Rightarrow> string \<Rightarrow> ref \<Rightarrow> 'w world \<Rightarrow> exn option \<times> 'w world" where
  "emit m event r w =
     run_handlers event 0 (case dict_get (hooks m) event of None \<Rightarrow> [] | Some hs \<Rightarrow> hs) r w"

definition register_template :: "'w Mailer \<Rightarrow> EmailTemplate \<Rightarrow> 'w Mailer" where
  "register_template m t = m\<lparr>templates := dict_set (templates m) (t_id t) t\<rparr>"

subsection \<open>Arguments of send\<close>

text \<open>An element of \<open>to\<close> is a string or an \<open>EmailAddress\<close> (line 181).\<close>

datatype recipient = Str string | Addr EmailAddress

fun to_address :: "recipient \<Rightarrow> EmailAddress" where
  "to_address (Str addr) = \<lparr>email = addr, name = []\<rparr>"
| "to_address (Addr a) = a"

text \<open>
  \<open>**kwargs\<close>: for each field of \<open>Email\<close> that a keyword can name, None when the
  keyword is absent and the value when it is present (a value that may itself be
  Python's None, hence the doubled option); \<open>kw_other\<close> lists the keywords that name
  no field of \<open>Email\<close>.
\<close>

record kwargs =
  kw_from_addr :: "EmailAddress option option"
  kw_reply_to :: "EmailAddress option option"
  kw_cc :: "EmailAddress list option"
  kw_bcc :: "EmailAddress list option"
  kw_attachments :: "Attachment list option"
  kw_headers :: "(string \<times> string) list option"
  kw_status :: "EmailStatus option"
  kw_created_at :: "int option"
  kw_sent_at :: "int option option"
  kw_error :: "string option option"
  kw_metadata :: "(string \<times> string) list option"
  kw_id :: "string option"
  kw_tracking_id :: "string option option"
  kw_other :: "string list"

definition no_kwargs :: kwargs where
  "no_kwargs =
     \<lparr>kw_from_addr = None, kw_reply_to = None, kw_cc = None, kw_bcc = None,
      kw_attachments = None, kw_headers = None, kw_status = None, kw_created_at = None,
      kw_sent_at = None, kw_error = None, kw_metadata = None, kw_id = None,
      kw_tracking_id = None, kw_other = []\<rparr>"

text \<open>
  The call \<open>Email(id=..., ..., tracking_id=..., **rest)\<close> of lines 183-192 with the
  dataclass defaults of lines 54-71: the value of the new object, or the TypeError
  that the call raises. A keyword \<open>id\<close> or \<open>tracking_id\<close> in \<open>rest\<close> is given
  twice, and a keyword that names no field is unexpected. \<open>created_at\<close> reads the
  clock only when no keyword gives it.
\<close>

definition Email_init ::
  "env \<Rightarrow> string \<Rightarrow> EmailAddress list \<Rightarrow> string \<Rightarrow> string \<Rightarrow> string \<Rightarrow> EmailAddress option \<Rightarrow>
   string \<Rightarrow> kwargs \<Rightarrow> 'w world \<Rightarrow> (exn + Email) \<times> 'w world" where
  "Email_init en i recipients subj btext bhtml sender tracking kw w =
     (if kw_id kw \<noteq> None then
        (Inl (TypeError ''got multiple values for keyword argument id''), w)
      else if kw_tracking_id kw \<noteq> None then
        (Inl (TypeError ''got multiple values for keyword argument tracking_id''), w)
      else if kw_other kw \<noteq> [] then
        (Inl (TypeError (''got an unexpected keyword argument '' @ hd (kw_other kw))), w)
      else
        (Inr \<lparr>email_id = i, to = recipients, subject = subj, body_text = btext,
              body_html = bhtml, from_addr = sender,
              reply_to = (case kw_reply_to kw of None \<Rightarrow> None | Some v \<Rightarrow> v),
              cc = (case kw_cc kw of None \<Rightarrow> [] | Some v \<Rightarrow> v),
              bcc = (case kw_bcc kw of None \<Rightarrow> [] | Some v \<Rightarrow> v),
              attachments = (case kw_attachments kw of None \<Rightarrow> [] | Some v \<Rightarrow> v),
              headers = (case kw_headers kw of None \<Rightarrow> [] | Some v \<Rightarrow> v),
              status = (case kw_status kw of None \<Rightarrow> PENDING | Some v \<Rightarrow> v),
              created_at = (case kw_created_at kw of None \<Rightarrow> now en (clock_reads w) | Some v \<Rightarrow> v),
              sent_at = (case kw_sent_at kw of None \<Rightarrow> None | Some v \<Rightarrow> v),
              error = (case kw_error kw of None \<Rightarrow> None | Some v \<Rightarrow> v),
              tracking_id = Some tracking,
              metadata = (case kw_metadata kw of None \<Rightarrow> [] | Some v \<Rightarrow> v)\<rparr>,
         (case kw_created_at kw of None \<Rightarrow> w\<lparr>clock_reads := Suc (clock_reads w)\<rparr> | Some v \<Rightarrow> w)))"

subsection \<open>Mailer.send (lines 180-208)\<close>

text \<open>
  Lines 181-195: the recipients are normalised, the two UUIDs are drawn, the message
  is built as a new object, the \<open>before_send\<close> hooks run and the status of the
  object becomes \<open>sending\<close>. The result is the new object, or the exception that
  leaves \<open>send\<close>: the TypeError of the constructor, or what left \<open>_emit\<close>.
\<close>

definition send_prepare ::
  "env \<Rightarrow> 'w Mailer \<Rightarrow> recipient list \<Rightarrow> string \<Rightarrow> string \<Rightarrow> string \<Rightarrow> kwargs \<Rightarrow> 'w world \<Rightarrow>
   (exn + ref) \<times> 'w world" where
  "send_prepare en m to_arg subj btext bhtml kw w =
     (let recipients = map to_address to_arg;
          i = take 12 (uuid4 en (uuids_drawn w));
          tracking = take 8 (uuid4 en (Suc (uuids_drawn w)));
          sender = (case kw_from_addr kw of None \<Rightarrow> Some (default_from m) | Some v \<Rightarrow> v)
      in case Email_init en i recipients subj btext bhtml sender tracking kw
                (w\<lparr>uuids_drawn := uuids_drawn w + 2\<rparr>) of
           (Inl err, w1) \<Rightarrow> (Inl err, w1)
         | (Inr e, w1) \<Rightarrow>
             (let r = next_ref w1;
                  w2 = w1\<lparr>heap := (heap w1)(r := e), next_ref := Suc r\<rparr>
              in case emit m ''before_send'' r w2 of
                   (Some err, w3) \<Rightarrow> (Inl err, w3)
                 | (None, w3) \<Rightarrow>
                     (Inr r, w3\<lparr>heap := (heap w3)(r := (heap w3 r)\<lparr>status := SENDING\<rparr>)\<rparr>)))"

text \<open>
  Line 207: \<open>self.sent_emails[email.id] = email\<close>, with the id that the object has
  at that moment, and line 208.
\<close>

definition send_store :: "'w Mailer \<Rightarrow> ref \<Rightarrow> 'w world \<Rightarrow> (exn + ref) \<times> 'w Mailer \<times> 'w world" where
  "send_store m r w =
     (Inr r, m\<lparr>sent_emails := dict_set (sent_emails m) (email_id (heap w r)) r\<rparr>, w)"

text \<open>
  Lines 197-208: the transport is called; on return the status becomes \<open>sent\<close>,
  \<open>sent_at\<close> is read from the clock and the \<open>after_send\<close> hooks run; on an
  instance of \<open>Exception\<close> the status becomes \<open>failed\<close>, \<open>error\<close> is its
  description and the \<open>on_error\<close> hooks run; then the object is stored under its
  id and returned. Any other exception of the transport, and what leaves \<open>_emit\<close>,
  leaves \<open>send\<close> before line 207.
\<close>

definition send_deliver ::
  "env \<Rightarrow> 'w Mailer \<Rightarrow> ref \<Rightarrow> 'w world \<Rightarrow> (exn + ref) \<times> 'w Mailer \<times> 'w world" where
  "send_deliver en m r w =
     (case transport m r (heap w) (ext w) of
        (p, h1, x1) \<Rightarrow>
          (let w1 = w\<lparr>ext := x1, heap := h1,
                      trace := trace w @ [Transport_call r (heap w r) (h1 r)]\<rparr>
           in case p of
                None \<Rightarrow>
                  (case emit m ''after_send'' r
                          (w1\<lparr>heap := h1(r := (h1 r)\<lparr>status := SENT,
                                                     sent_at := Some (now en (clock_reads w1))\<rparr>),
                              clock_reads := Suc (clock_reads w1)\<rparr>) of
                     (Some err, w2) \<Rightarrow> (Inl err, m, w2)
                   | (None, w2) \<Rightarrow> send_store m r w2)
              | Some err \<Rightarrow>
                  if is_Exception err
                  then (case emit m ''on_error'' r
                               (w1\<lparr>heap := h1(r := (h1 r)\<lparr>status := FAILED,
                                                          error := Some (str_exn err)\<rparr>)\<rparr>) of
                          (Some err', w2) \<Rightarrow> (Inl err', m, w2)
                        | (None, w2) \<Rightarrow> send_store m r w2)
                  else (Inl err, m, w1)))"

definition send ::
  "env \<Rightarrow> 'w Mailer \<Rightarrow> recipient list \<Rightarrow> string \<Rightarrow> string \<Rightarrow> string \<Rightarrow> kwargs \<Rightarrow> 'w world \<Rightarrow>
   (exn + ref) \<times> 'w Mailer \<times> 'w world" where
  "send en m to_arg subj btext bhtml kw w =
     (case send_prepare en m to_arg subj btext bhtml kw w of
        (Inl err, w1) \<Rightarrow> (Inl err, m, w1)
      | (Inr r, w1) \<Rightarrow> send_deliver en m r w1)"

subsection \<open>send_template (lines 210-217)\<close>

definition send_template ::
  "env \<Rightarrow> 'w Mailer \<Rightarrow> string \<Rightarrow> recipient list \<Rightarrow> (string \<times> pyval) list option \<Rightarrow> kwargs \<Rightarrow>
   'w world \<Rightarrow> (exn + ref option) \<times> 'w Mailer \<times> 'w world" where
  "send_template en m template_id to_arg context kw w =
     (case dict_get (templates m) template_id of
        None \<Rightarrow> (Inr None, m, w\<lparr>logs := logs w @ [''Template not found: '' @ template_id]\<rparr>)
      | Some template \<Rightarrow>
          (case render template (case context of None \<Rightarrow> [] | Some c \<Rightarrow> c) of
             (subj, btext, bhtml) \<Rightarrow>
               (case send en m to_arg subj btext bhtml kw w of
                  (Inl err, m1, w1) \<Rightarrow> (Inl err, m1, w1)
                | (Inr r, m1, w1) \<Rightarrow> (Inr (Some r), m1, w1))))"

subsection \<open>send_bulk (lines 223-228)\<close>

text \<open>
  One entry of the list: the dict unpacked by \<open>self.send(**email_data)\<close>. The keys
  \<open>to\<close> and \<open>subject\<close> are required by the signature of \<open>send\<close>, the bodies
  default to the empty string, every other key goes to \<open>**kwargs\<close>.
\<close>

record email_data =
  d_to :: "recipient list option"
  d_subject :: "string option"
  d_body_text :: "string option"
  d_body_html :: "string option"
  d_kwargs :: kwargs

definition send_unpacked ::
  "env \<Rightarrow> 'w Mailer \<Rightarrow> email_data \<Rightarrow> 'w world \<Rightarrow> (exn + ref) \<times> 'w Mailer \<times> 'w world" where
  "send_unpacked en m d w =
     (case d_to d of
        None \<Rightarrow> (Inl (TypeError ''send() missing required positional argument to''), m, w)
      | Some to_arg \<Rightarrow>
          (case d_subject d of
             None \<Rightarrow> (Inl (TypeError ''send() missing required positional argument subject''), m, w)
           | Some subj \<Rightarrow>
               send en m to_arg subj
                 (case d_body_text d of None \<Rightarrow> [] | Some b \<Rightarrow> b)
                 (case d_body_html d of None \<Rightarrow> [] | Some b \<Rightarrow> b)
                 (d_kwargs d) w))"

text \<open>The loop, with the list \<open>results\<close> as accumulator; an exception of \<open>send\<close> leaves it.\<close>

fun send_bulk_loop ::
  "env \<Rightarrow> 'w Mailer \<Rightarrow> email_data list \<Rightarrow> ref list \<Rightarrow> 'w world \<Rightarrow>
   (exn + ref list) \<times> 'w Mailer \<times> 'w world" where
  "send_bulk_loop en m [] results w = (Inr results, m, w)"
| "send_bulk_loop en m (d # emails) results w =
     (case send_unpacked en m d w of
        (Inl err, m1, w1) \<Rightarrow> (Inl err, m1, w1)
      | (Inr result, m1, w1) \<Rightarrow> send_bulk_loop en m1 emails (results @ [result]) w1)"

definition send_bulk ::
  "env \<Rightarrow> 'w Mailer \<Rightarrow> email_data list \<Rightarrow> 'w world \<Rightarrow> (exn + ref list) \<times> 'w Mailer \<times> 'w world" where
  "send_bulk en m emails w = send_bulk_loop en m emails [] w"

subsection \<open>get_email and stats (lines 230-240)\<close>

definition get_email :: "'w Mailer \<Rightarrow> string \<Rightarrow> ref option" where
  "get_email m i = dict_get (sent_emails m) i"


section \<open>Vocabulary of the claims\<close>

text \<open>
  The invariant of a \<open>Mailer\<close>: the keys of \<open>hooks\<close> are the three events that
  \<open>__init__\<close> creates.
\<close>

definition mailer_ok :: "'w Mailer \<Rightarrow> bool" where
  "mailer_ok m = (map fst (hooks m) = [''before_send'', ''after_send'', ''on_error''])"

text \<open>Keyword arguments that the constructor of \<open>Email\<close> accepts.\<close>

definition kwargs_ok :: "kwargs \<Rightarrow> bool" where
  "kwargs_ok kw = (kw_id kw = None \<and> kw_tracking_id kw = None \<and> kw_other kw = [])"

text \<open>A set of arguments that \<open>send\<close> accepts: \<open>to\<close> and \<open>subject\<close> are there.\<close>

definition data_ok :: "email_data \<Rightarrow> bool" where
  "data_ok d = (d_to d \<noteq> None \<and> d_subject d \<noteq> None \<and> kwargs_ok (d_kwargs d))"

text \<open>The callables of a mailer: its hooks of all events, and its transport.\<close>

definition all_hooks :: "'w Mailer \<Rightarrow> 'w callable list" where
  "all_hooks m = concat (map snd (hooks m))"

definition callables :: "'w Mailer \<Rightarrow> 'w callable list" where
  "callables m = transport m # all_hooks m"

text \<open>
  A callable that raises nothing but instances of \<open>Exception\<close>, and a mailer all of
  whose callables are so.
\<close>

definition raises_only_Exception :: "'w callable \<Rightarrow> bool" where
  "raises_only_Exception c = (\<forall>r h x err. fst (c r h x) = Some err \<longrightarrow> is_Exception err)"

definition polite :: "'w Mailer \<Rightarrow> bool" where
  "polite m = (\<forall>c\<in>set (callables m). raises_only_Exception c)"

text \<open>A callable keeps a field when it never changes that field of any message.\<close>

definition keeps :: "(Email \<Rightarrow> 'a) \<Rightarrow> 'w callable \<Rightarrow> bool" where
  "keeps field c = (\<forall>r h x r'. field (fst (snd (c r h x)) r') = field (h r'))"

text \<open>The number of calls of the transport recorded so far.\<close>

definition transport_calls :: "'w world \<Rightarrow> nat" where
  "transport_calls w = length (filter is_transport_call (trace w))"

text \<open>
  The statuses of the messages handed over in the calls recorded between two worlds:
  for each call the status when it began and the status when it ended.
\<close>

definition statuses_since :: "'w world \<Rightarrow> 'w world \<Rightarrow> EmailStatus list" where
  "statuses_since w w1 = concat (map event_statuses (drop (length (trace w)) (trace w1)))"

text \<open>
  The specification's reading of a bulk send: \<open>send\<close> is invoked for each entry in
  the order of the list, each call starting from the mailer and the world that the
  call before it left, and the message each call returns is the result at the same
  position.
\<close>

inductive sends_in_order ::
  "env \<Rightarrow> 'w Mailer \<Rightarrow> 'w world \<Rightarrow> email_data list \<Rightarrow> ref list \<Rightarrow> 'w Mailer \<Rightarrow> 'w world \<Rightarrow> bool"
  for en :: env where
  no_entry: "sends_in_order en m w [] [] m w"
| entry: "send_unpacked en m d w = (Inr r, m1, w1) \<Longrightarrow> sends_in_order en m1 w1 ds rs m2 w2 \<Longrightarrow>
     sends_in_order en m w (d # ds) (r # rs) m2 w2"

text \<open>
  A history of a mailer from the state \<open>m0\<close>, \<open>w0\<close>: calls of \<open>send\<close> that
  returned a message, collected in call order, each with the status it had when
  \<open>send\<close> returned it; calls of \<open>send\<close> that raised; and the operations that
  store no message: \<open>register_template\<close>, a \<open>send_template\<close> that found no
  template, and \<open>add_hook\<close> with a handler that keeps the id and the status of
  every message.
\<close>

inductive sent_run ::
  "env \<Rightarrow> 'w Mailer \<Rightarrow> 'w world \<Rightarrow> (ref \<times> EmailStatus) list \<Rightarrow> 'w Mailer \<Rightarrow> 'w world \<Rightarrow> bool"
  for en :: env and m0 :: "'w Mailer" and w0 :: "'w world" where
  fresh: "sent_run en m0 w0 [] m0 w0"
| returned: "sent_run en m0 w0 outs m w \<Longrightarrow>
     send en m to_arg subj btext bhtml kw w = (Inr r, m1, w1) \<Longrightarrow>
     sent_run en m0 w0 (outs @ [(r, status (heap w1 r))]) m1 w1"
| raised: "sent_run en m0 w0 outs m w \<Longrightarrow>
     send en m to_arg subj btext bhtml kw w = (Inl err, m1, w1) \<Longrightarrow>
     sent_run en m0 w0 outs m1 w1"
| hook_added: "sent_run en m0 w0 outs m w \<Longrightarrow> keeps email_id handler \<Longrightarrow> keeps status handler \<Longrightarrow>
     sent_run en m0 w0 outs (add_hook m event handler) w"
| template_added: "sent_run en m0 w0 outs m w \<Longrightarrow> sent_run en m0 w0 outs (register_template m t) w"
| template_missing: "sent_run en m0 w0 outs m w \<Longrightarrow>
     send_template en m template_id to_arg context kw w = (Inr None, m1, w1) \<Longrightarrow>
     sent_run en m0 w0 outs m1 w1"


text \<open>The callables change the status, \<open>created_at\<close> and \<open>sent_at\<close> of no message.\<close>

definition lifecycle_safe :: "'w Mailer \<Rightarrow> bool" where
  "lifecycle_safe m =
     (\<forall>c\<in>set (callables m). keeps status c \<and> keeps created_at c \<and> keeps sent_at c)"

text \<open>No keyword overrides \<open>status\<close>, \<open>created_at\<close> or \<open>sent_at\<close>.\<close>

definition lifecycle_defaults :: "kwargs \<Rightarrow> bool" where
  "lifecycle_defaults kw = (kw_status kw = None \<and> kw_created_at kw = None \<and> kw_sent_at kw = None)"

text \<open>The clock never goes back.\<close>

definition steady_clock :: "env \<Rightarrow> bool" where
  "steady_clock en = (\<forall>i j. i \<le> j \<longrightarrow> now en i \<le> now en j)"

section \<open>Fixtures\<close>

text \<open>
  An address, a message with the defaults of the dataclass, an empty world around a
  state of the callables, and an environment whose UUIDs are numbered and whose clock
  advances by one at each reading.
\<close>

definition address :: "string \<Rightarrow> EmailAddress" where
  "address a = \<lparr>email = a, name = []\<rparr>"

definition plain_email :: "string \<Rightarrow> EmailAddress list \<Rightarrow> string \<Rightarrow> Email" where
  "plain_email i recipients subj =
     \<lparr>email_id = i, to = recipients, subject = subj, body_text = [], body_html = [],
      from_addr = Some (address ''noreply@example.com''), reply_to = None, cc = [], bcc = [],
      attachments = [], headers = [], status = PENDING, created_at = 0, sent_at = None,
      error = None, tracking_id = None, metadata = []\<rparr>"

definition world0 :: "'w \<Rightarrow> 'w world" where
  "world0 x = \<lparr>ext = x, heap = (\<lambda>r. plain_email [] [] []), next_ref = 0, logs = [],
               trace = [], uuids_drawn = 0, clock_reads = 0\<rparr>"

definition test_env :: env where
  "test_env = \<lparr>uuid4 = (\<lambda>k. ''0000000'' @ str_nat k @ ''-aaaa-4bbb-8ccc-dddddddddddd''),
               now = (\<lambda>k. 1000 + int k)\<rparr>"

definition smtp_config :: SMTPTransport where
  "smtp_config = \<lparr>host = ''smtp.example.com'', port = 587, username = ''user'',
                   password = ''secret'', use_tls = True\<rparr>"

definition simple_data :: "string \<Rightarrow> string \<Rightarrow> email_data" where
  "simple_data addr subj =
     \<lparr>d_to = Some [Str addr], d_subject = Some subj, d_body_text = None, d_body_html = None,
      d_kwargs = no_kwargs\<rparr>"

text \<open>
  Transports: one that refuses every message, one that refuses the subject
  \<open>boom\<close>, and one that is interrupted from the keyboard.
\<close>

definition refusing_transport :: "'w callable" where
  "refusing_transport r h x = (Some (OtherError ''Connection refused''), h, x)"

definition flaky_transport :: "'w callable" where
  "flaky_transport r h x =
     (if subject (h r) = ''boom'' then (Some (OtherError ''Connection refused''), h, x)
      else (None, h, x))"

definition interrupted_transport :: "'w callable" where
  "interrupted_transport r h x = (Some KeyboardInterrupt, h, x)"

text \<open>
  Hooks: one that only counts its calls, one that doubles the counter, one that
  resets the status of the message, one that rewrites its id, and one that exits.
\<close>

definition counting_hook :: "nat callable" where
  "counting_hook r h n = (None, h, Suc n)"

definition doubling_hook :: "nat callable" where
  "doubling_hook r h n = (None, h, 2 * n)"

definition resetting_hook :: "'w callable" where
  "resetting_hook r h x = (None, h(r := (h r)\<lparr>status := PENDING\<rparr>), x)"


definition exiting_hook :: "'w callable" where
  "exiting_hook r h x = (Some (SystemExit ''bye''), h, x)"

text \<open>Mailers built from them.\<close>

definition refused_mailer :: "nat Mailer" where
  "refused_mailer = add_hook (Mailer_init refusing_transport None) ''on_error'' counting_hook"

definition flaky_mailer :: "nat Mailer" where
  "flaky_mailer = add_hook (Mailer_init flaky_transport None) ''after_send'' counting_hook"

definition interrupted_mailer :: "nat Mailer" where
  "interrupted_mailer =
     add_hook (Mailer_init interrupted_transport None) ''on_error'' counting_hook"

definition exiting_mailer :: "nat Mailer" where
  "exiting_mailer = add_hook (Mailer_init refusing_transport None) ''on_error'' exiting_hook"


definition resetting_mailer :: "nat Mailer" where
  "resetting_mailer =
     add_hook (add_hook (Mailer_init flaky_transport None) ''after_send'' resetting_hook)
       ''after_send'' counting_hook"

definition ordered_mailer :: "nat Mailer" where
  "ordered_mailer =
     add_hook (add_hook (Mailer_init flaky_transport None) ''after_send'' counting_hook)
       ''after_send'' doubling_hook"



text \<open>A mailer whose first \<open>after_send\<close> hook exits.\<close>

definition leaving_mailer :: "nat Mailer" where
  "leaving_mailer =
     add_hook (add_hook (Mailer_init flaky_transport None) ''after_send'' exiting_hook)
       ''after_send'' counting_hook"

section \<open>Properties of strings and of rendering\<close>

lemma str_replace_Nil: "old \<noteq> [] \<Longrightarrow> str_replace [] old new = []"
  by (simp add: str_replace.simps)

lemma str_replace_hit:
  "old \<noteq> [] \<Longrightarrow> prefix old s \<Longrightarrow>
   str_replace s old new = new @ str_replace (drop (length old) s) old new"
  by (subst str_replace.simps) auto

lemma str_replace_append:
  "old \<noteq> [] \<Longrightarrow> str_replace (old @ s) old new = new @ str_replace s old new"
  by (simp add: str_replace_hit)

lemma str_replace_miss:
  "old \<noteq> [] \<Longrightarrow> \<not> prefix old (c # cs) \<Longrightarrow>
   str_replace (c # cs) old new = c # str_replace cs old new"
  by (subst str_replace.simps) simp

lemma occurs_iff: "occurs old s \<longleftrightarrow> (\<exists>a b. s = a @ old @ b)"
proof (induction s)
  case Nil
  show ?case by auto
next
  case (Cons c cs)
  show ?case
  proof
    assume "occurs old (c # cs)"
    then consider "prefix old (c # cs)" | "occurs old cs" by auto
    then show "\<exists>a b. c # cs = a @ old @ b"
    proof cases
      case 1
      then obtain b where "c # cs = old @ b" by (auto simp: prefix_def)
      then have "c # cs = [] @ old @ b" by simp
      then show ?thesis by blast
    next
      case 2
      with Cons.IH obtain a b where "cs = a @ old @ b" by blast
      then have "c # cs = (c # a) @ old @ b" by simp
      then show ?thesis by blast
    qed
  next
    assume "\<exists>a b. c # cs = a @ old @ b"
    then obtain a b where ab: "c # cs = a @ old @ b" by blast
    show "occurs old (c # cs)"
    proof (cases a)
      case Nil
      with ab have "prefix old (c # cs)" by (simp add: prefix_def)
      then show ?thesis by simp
    next
      case (Cons a0 as)
      with ab have "cs = as @ old @ b" by simp
      with Cons.IH have "occurs old cs" by blast
      then show ?thesis by simp
    qed
  qed
qed

lemma occurs_Nil_left: "occurs [] s"
  by (cases s) auto

lemma str_replace_absent: "\<not> occurs old s \<Longrightarrow> str_replace s old new = s"
proof (induction s)
  case Nil
  then show ?case by (simp add: str_replace.simps)
next
  case (Cons c cs)
  from Cons.prems have ne: "old \<noteq> []" using occurs_Nil_left by blast
  from Cons.prems have "\<not> prefix old (c # cs)" and "\<not> occurs old cs" by auto
  with Cons.IH ne show ?case by (simp add: str_replace_miss)
qed


lemma not_occurs_butlast: "old \<noteq> [] \<Longrightarrow> \<not> occurs old (butlast old)"
proof
  assume ne: "old \<noteq> []" and "occurs old (butlast old)"
  then obtain a b where "butlast old = a @ old @ b" by (auto simp: occurs_iff)
  then have "length (butlast old) = length a + length old + length b" by simp
  then show False using ne by (cases old rule: rev_cases) auto
qed

lemma prefix_butlast_ext:
  "old \<noteq> [] \<Longrightarrow> prefix (c # a @ butlast old) (c # a @ old @ b)"
  by (cases old rule: rev_cases) auto

lemma prefix_within:
  assumes ne: "old \<noteq> []" and p: "prefix old (c # a @ old @ b)"
  shows "prefix old (c # a @ butlast old)"
proof -
  have "prefix (c # a @ butlast old) (c # a @ old @ b)"
    using ne by (rule prefix_butlast_ext)
  moreover have "length old \<le> length (c # a @ butlast old)" by simp
  ultimately show ?thesis using p prefix_length_prefix by blast
qed

lemma str_replace_leftmost:
  "old \<noteq> [] \<Longrightarrow> \<not> occurs old (a @ butlast old) \<Longrightarrow>
   str_replace (a @ old @ b) old new = a @ new @ str_replace b old new"
proof (induction a)
  case Nil
  have "str_replace (old @ b) old new = new @ str_replace b old new"
    using Nil.prems(1) by (rule str_replace_append)
  then show ?case by simp
next
  case (Cons c a)
  have np: "\<not> prefix old (c # a @ butlast old)" and no: "\<not> occurs old (a @ butlast old)"
    using Cons.prems(2) by simp_all
  have "\<not> prefix old (c # a @ old @ b)"
    using prefix_within [OF Cons.prems(1)] np by blast
  then have "str_replace (c # a @ old @ b) old new = c # str_replace (a @ old @ b) old new"
    by (rule str_replace_miss [OF Cons.prems(1)])
  also have "\<dots> = c # a @ new @ str_replace b old new"
    using Cons.IH [OF Cons.prems(1) no] by (simp only:)
  finally show ?case by simp
qed

lemma leftmost_occurrence:
  "old \<noteq> [] \<Longrightarrow> occurs old s \<Longrightarrow> \<exists>a b. s = a @ old @ b \<and> \<not> occurs old (a @ butlast old)"
proof (induction s)
  case Nil
  then show ?case by simp
next
  case (Cons c cs)
  show ?case
  proof (cases "prefix old (c # cs)")
    case True
    then obtain b where "c # cs = [] @ old @ b" by (auto simp: prefix_def)
    moreover have "\<not> occurs old ([] @ butlast old)"
      using Cons.prems(1) by (simp add: not_occurs_butlast)
    ultimately show ?thesis by blast
  next
    case False
    with Cons.prems have "occurs old cs" by simp
    with Cons.IH Cons.prems(1) obtain a b
      where ab: "cs = a @ old @ b" and left: "\<not> occurs old (a @ butlast old)" by blast
    have "\<not> prefix old (c # a @ butlast old)"
    proof
      assume "prefix old (c # a @ butlast old)"
      moreover have "prefix (c # a @ butlast old) (c # a @ old @ b)"
        using Cons.prems(1) by (rule prefix_butlast_ext)
      ultimately have "prefix old (c # a @ old @ b)" by (rule prefix_order.trans)
      then have "prefix old (c # cs)" using ab by simp
      with False show False by simp
    qed
    with left have "\<not> occurs old ((c # a) @ butlast old)" by simp
    moreover from ab have "c # cs = (c # a) @ old @ b" by simp
    ultimately show ?thesis by blast
  qed
qed

lemma str_replace_replaces_every:
  "old \<noteq> [] \<Longrightarrow> replaces_every old new s (str_replace s old new)"
proof (induction "length s" arbitrary: s rule: less_induct)
  case less
  show ?case
  proof (cases "occurs old s")
    case False
    then show ?thesis by (simp add: str_replace_absent replaces_every.absent)
  next
    case True
    with less.prems obtain a b
      where s: "s = a @ old @ b" and left: "\<not> occurs old (a @ butlast old)"
      using leftmost_occurrence by blast
    from s less.prems have "length b < length s" by simp
    then have "replaces_every old new b (str_replace b old new)"
      using less.hyps less.prems by blast
    with left have "replaces_every old new (a @ old @ b) (a @ new @ str_replace b old new)"
      by (rule replaces_every.leftmost)
    then show ?thesis
      unfolding s str_replace_leftmost [OF less.prems left] .
  qed
qed

lemma replaces_every_unique:
  "replaces_every old new s r \<Longrightarrow> old \<noteq> [] \<Longrightarrow> r = str_replace s old new"
proof (induction rule: replaces_every.induct)
  case (absent s)
  then show ?case by (simp add: str_replace_absent)
next
  case (leftmost a b r)
  from leftmost.IH leftmost.prems have "r = str_replace b old new" by blast
  then show ?case
    using str_replace_leftmost [OF leftmost.prems leftmost.hyps(1), of b new] by simp
qed

lemma replaces_every_iff:
  "old \<noteq> [] \<Longrightarrow> replaces_every old new s r \<longleftrightarrow> r = str_replace s old new"
  using replaces_every_unique str_replace_replaces_every by blast

lemma placeholder_nonempty: "placeholder key \<noteq> []"
  by (simp add: placeholder_def)






lemma render_loop_fields:
  "render_loop items subj btext bhtml =
     (replace_all_keys items subj, replace_all_keys items btext, replace_all_keys items bhtml)"
  by (induction items arbitrary: subj btext bhtml) auto

lemma renders_replace_all_keys: "renders items s (replace_all_keys items s)"
proof (induction items arbitrary: s)
  case Nil
  show ?case by (simp add: renders.no_items)
next
  case (Cons kv items)
  obtain key val where kv: "kv = (key, val)" by (cases kv)
  have "replaces_every (placeholder key) (py_str val) s (str_replace s (placeholder key) (py_str val))"
    using placeholder_nonempty by (rule str_replace_replaces_every)
  then have "renders ((key, val) # items) s
      (replace_all_keys items (str_replace s (placeholder key) (py_str val)))"
    using Cons.IH by (rule renders.next_item)
  then show ?case by (simp add: kv)
qed

lemma renders_unique: "renders items s r \<Longrightarrow> r = replace_all_keys items s"
proof (induction rule: renders.induct)
  case (no_items s)
  show ?case by simp
next
  case (next_item key val s s' items r)
  from next_item.hyps(1) have "s' = str_replace s (placeholder key) (py_str val)"
    using placeholder_nonempty by (rule replaces_every_unique)
  with next_item.IH show ?case by simp
qed

lemma renders_iff: "renders items s r \<longleftrightarrow> r = replace_all_keys items s"
  using renders_unique renders_replace_all_keys by blast

lemma welcome_subject:
  "replace_all_keys [(''name'', PStr ''Bob''), (''app_name'', PStr ''X'')]
     ''Welcome {{name}} to {{app_name}}'' = ''Welcome Bob to X''"
  by (simp add: str_replace.simps placeholder_def)

text \<open>
  Claim C6. \<open>EmailTemplate.render\<close> returns the subject, the text body and the HTML
  body in which, for each context key in the insertion order of the mapping, every
  occurrence of the key's placeholder has been replaced by the stringified value:
  the triple returned is exactly the one the relation \<open>renders\<close> determines for the
  three fields. In particular the subject \<open>Welcome {{name}} to {{app_name}}\<close>
  rendered with name Bob and app_name X is \<open>Welcome Bob to X\<close>.
\<close>

theorem render_replaces_placeholders:
  "(render t context = (subj, btext, bhtml) \<longleftrightarrow>
      renders context (t_subject t) subj \<and> renders context (t_body_text t) btext \<and>
      renders context (t_body_html t) bhtml) \<and>
   fst (render \<lparr>t_id = i, t_name = n, t_subject = ''Welcome {{name}} to {{app_name}}'',
                 t_body_text = bt, t_body_html = bh, variables = vs\<rparr>
          [(''name'', PStr ''Bob''), (''app_name'', PStr ''X'')]) = ''Welcome Bob to X''"
proof
  show "render t context = (subj, btext, bhtml) \<longleftrightarrow>
      renders context (t_subject t) subj \<and> renders context (t_body_text t) btext \<and>
      renders context (t_body_html t) bhtml"
    unfolding render_def render_loop_fields renders_iff by auto
  show "fst (render \<lparr>t_id = i, t_name = n, t_subject = ''Welcome {{name}} to {{app_name}}'',
                 t_body_text = bt, t_body_html = bh, variables = vs\<rparr>
          [(''name'', PStr ''Bob''), (''app_name'', PStr ''X'')]) = ''Welcome Bob to X''"
    unfolding render_def render_loop_fields using welcome_subject by simp
qed

theorem render_replaces_placeholders_witness:
  "renders [(''name'', PStr ''Bob''), (''app_name'', PStr ''X'')]
     ''Welcome {{name}} to {{app_name}}'' ''Welcome Bob to X'' \<and>
   renders [(''name'', PStr ''Bob''), (''app_name'', PStr ''X'')] ''Hi {{name}}'' ''Hi Bob'' \<and>
   renders [(''name'', PStr ''Bob''), (''app_name'', PStr ''X'')] ''<p>{{app_name}}</p>'' ''<p>X</p>''"
proof -
  have "render \<lparr>t_id = ''welcome'', t_name = ''Welcome Email'',
                 t_subject = ''Welcome {{name}} to {{app_name}}'',
                 t_body_text = ''Hi {{name}}'', t_body_html = ''<p>{{app_name}}</p>'',
                 variables = []\<rparr>
          [(''name'', PStr ''Bob''), (''app_name'', PStr ''X'')]
        = (''Welcome Bob to X'', ''Hi Bob'', ''<p>X</p>'')"
    by (simp add: render_def str_replace.simps placeholder_def)
  then show ?thesis
    using render_replaces_placeholders
      [of "\<lparr>t_id = ''welcome'', t_name = ''Welcome Email'',
                 t_subject = ''Welcome {{name}} to {{app_name}}'',
                 t_body_text = ''Hi {{name}}'', t_body_html = ''<p>{{app_name}}</p>'',
                 variables = []\<rparr>"
          "[(''name'', PStr ''Bob''), (''app_name'', PStr ''X'')]"
          "''Welcome Bob to X''" "''Hi Bob''" "''<p>X</p>''"]
    by simp
qed

lemma has_token_iff: "has_token s \<longleftrightarrow> (\<exists>a b c. s = a @ ''{{'' @ b @ ''}}'' @ c)"
proof (induction s)
  case Nil
  show ?case by simp
next
  case (Cons x xs)
  show ?case
  proof
    assume "has_token (x # xs)"
    then consider "prefix ''{{'' (x # xs) \<and> occurs ''}}'' (drop 2 (x # xs))" | "has_token xs"
      by auto
    then show "\<exists>a b c. x # xs = a @ ''{{'' @ b @ ''}}'' @ c"
    proof cases
      case 1
      then obtain rest where r: "x # xs = ''{{'' @ rest" by (auto simp: prefix_def)
      then have "drop 2 (x # xs) = rest" by simp
      with 1 obtain b c where "rest = b @ ''}}'' @ c" by (auto simp: occurs_iff)
      with r have "x # xs = [] @ ''{{'' @ b @ ''}}'' @ c" by simp
      then show ?thesis by blast
    next
      case 2
      with Cons.IH obtain a b c where "xs = a @ ''{{'' @ b @ ''}}'' @ c" by blast
      then have "x # xs = (x # a) @ ''{{'' @ b @ ''}}'' @ c" by simp
      then show ?thesis by blast
    qed
  next
    assume "\<exists>a b c. x # xs = a @ ''{{'' @ b @ ''}}'' @ c"
    then obtain a b c where abc: "x # xs = a @ ''{{'' @ b @ ''}}'' @ c" by blast
    show "has_token (x # xs)"
    proof (cases a)
      case Nil
      with abc have e: "x # xs = ''{{'' @ (b @ ''}}'' @ c)" by simp
      then have "prefix ''{{'' (x # xs)" unfolding prefix_def by blast
      moreover from e have "drop 2 (x # xs) = b @ ''}}'' @ c" by simp
      then have "occurs ''}}'' (drop 2 (x # xs))" unfolding occurs_iff by blast
      ultimately have "prefix ''{{'' (x # xs) \<and> occurs ''}}'' (drop 2 (x # xs))" by blast
      then show ?thesis by (subst has_token.simps) (rule disjI1)
    next
      case (Cons a0 as)
      with abc have "xs = as @ ''{{'' @ b @ ''}}'' @ c" by simp
      with Cons.IH have "has_token xs" by blast
      then show ?thesis by simp
    qed
  qed
qed

lemma placeholder_is_token: "occurs (placeholder key) s \<Longrightarrow> has_token s"
proof -
  assume "occurs (placeholder key) s"
  then obtain a b where "s = a @ placeholder key @ b" unfolding occurs_iff by blast
  then have "s = a @ ''{{'' @ key @ ''}}'' @ b" by (simp add: placeholder_def)
  then show ?thesis unfolding has_token_iff by blast
qed

lemma replace_all_keys_no_token: "\<not> has_token s \<Longrightarrow> replace_all_keys items s = s"
proof (induction items)
  case Nil
  show ?case by simp
next
  case (Cons kv items)
  obtain key val where kv: "kv = (key, val)" by (cases kv)
  from Cons.prems have "\<not> occurs (placeholder key) s" using placeholder_is_token by blast
  then have "str_replace s (placeholder key) (py_str val) = s" by (rule str_replace_absent)
  with Cons show ?case by (simp add: kv)
qed

text \<open>
  Claim C9. When the subject, the text body and the HTML body of a template hold no
  placeholder token, \<open>render\<close> returns the three of them unchanged, whatever the
  context: keys that match nothing are ignored, and rendering raises no error (it is
  a total function).
\<close>

theorem render_without_tokens:
  assumes "\<not> has_token (t_subject t)" and "\<not> has_token (t_body_text t)"
    and "\<not> has_token (t_body_html t)"
  shows "render t context = (t_subject t, t_body_text t, t_body_html t)"
  unfolding render_def render_loop_fields using assms by (simp add: replace_all_keys_no_token)

theorem render_without_tokens_witness:
  "\<not> has_token ''Monthly report'' \<and> \<not> has_token ''Total: {5} }} {{'' \<and> \<not> has_token ''<p>ok</p>'' \<and>
   render \<lparr>t_id = ''r'', t_name = ''Report'', t_subject = ''Monthly report'',
            t_body_text = ''Total: {5} }} {{'', t_body_html = ''<p>ok</p>'', variables = []\<rparr>
          [(''name'', PStr ''Bob''), (''n'', PInt 5)]
     = (''Monthly report'', ''Total: {5} }} {{'', ''<p>ok</p>'')"
proof -
  have a: "\<not> has_token ''Monthly report''" by simp
  have b: "\<not> has_token ''Total: {5} }} {{''" by simp
  have c: "\<not> has_token ''<p>ok</p>''" by simp
  show ?thesis
    using a b c
      render_without_tokens [of "\<lparr>t_id = ''r'', t_name = ''Report'', t_subject = ''Monthly report'',
            t_body_text = ''Total: {5} }} {{'', t_body_html = ''<p>ok</p>'', variables = []\<rparr>"
          "[(''name'', PStr ''Bob''), (''n'', PInt 5)]"]
    by simp
qed

section \<open>Properties of dictionaries\<close>

lemma dict_get_None_iff: "dict_get d k = None \<longleftrightarrow> k \<notin> fst ` set d"
  by (induction d) (auto split: if_splits)

lemma dict_get_dict_set: "dict_get (dict_set d k v) k = Some v"
  by (induction d) auto

lemma dict_get_dict_set_other: "k' \<noteq> k \<Longrightarrow> dict_get (dict_set d k v) k' = dict_get d k'"
  by (induction d) auto

lemma dict_set_keys_present: "dict_get d k = Some v' \<Longrightarrow> map fst (dict_set d k v) = map fst d"
  by (induction d) (auto split: if_splits)


section \<open>The hook registry\<close>

lemma mailer_ok_init: "mailer_ok (Mailer_init tr dflt)"
  by (simp add: mailer_ok_def Mailer_init_def)

lemma mailer_ok_add_hook: "mailer_ok m \<Longrightarrow> mailer_ok (add_hook m event handler)"
proof (cases "dict_get (hooks m) event")
  case None
  assume "mailer_ok m"
  with None show ?thesis by (simp add: add_hook_def)
next
  case (Some hs)
  assume ok: "mailer_ok m"
  from Some have "map fst (dict_set (hooks m) event (hs @ [handler])) = map fst (hooks m)"
    by (rule dict_set_keys_present)
  with ok Some show ?thesis by (simp add: add_hook_def mailer_ok_def)
qed

lemma mailer_ok_register_template: "mailer_ok m \<Longrightarrow> mailer_ok (register_template m t)"
  by (simp add: mailer_ok_def register_template_def)

lemma unknown_event_no_handlers:
  assumes "mailer_ok m" and "event \<noteq> ''before_send''" and "event \<noteq> ''after_send''"
    and "event \<noteq> ''on_error''"
  shows "dict_get (hooks m) event = None"
proof -
  from assms(1) have "fst ` set (hooks m) = {''before_send'', ''after_send'', ''on_error''}"
    unfolding mailer_ok_def by (metis list.set_map list.simps(15) empty_set)
  with assms(2-4) have "event \<notin> fst ` set (hooks m)" by blast
  then show ?thesis by (simp add: dict_get_None_iff)
qed

text \<open>
  Claim C10. For an event name other than \<open>before_send\<close>, \<open>after_send\<close> and
  \<open>on_error\<close>, \<open>add_hook\<close> changes nothing: the mailer it leaves is the mailer it
  was given (hook lists, templates, table, transport), no error is raised (the
  function is total), and emitting that very event name calls no handler.
\<close>

theorem add_hook_unknown_event:
  assumes "mailer_ok m" and "event \<noteq> ''before_send''" and "event \<noteq> ''after_send''"
    and "event \<noteq> ''on_error''"
  shows "add_hook m event handler = m \<and> emit (add_hook m event handler) event r w = (None, w)"
proof -
  have none: "dict_get (hooks m) event = None"
    using assms by (rule unknown_event_no_handlers)
  then have same: "add_hook m event handler = m" by (simp add: add_hook_def)
  from none have "emit m event r w = (None, w)" by (simp add: emit_def)
  with same show ?thesis by simp
qed

theorem add_hook_unknown_event_witness:
  "mailer_ok (Mailer_init MockTransport_send None) \<and>
   add_hook (Mailer_init MockTransport_send None) ''after_sent'' resetting_hook
     = Mailer_init MockTransport_send None \<and>
   emit (add_hook (Mailer_init MockTransport_send None) ''after_sent'' resetting_hook)
     ''after_sent'' 0 (world0 []) = (None, world0 [])"
proof -
  have ok: "mailer_ok (Mailer_init MockTransport_send None)" by (rule mailer_ok_init)
  have a: "''after_sent'' \<noteq> ''before_send''" by simp
  have b: "''after_sent'' \<noteq> ''after_send''" by simp
  have c: "''after_sent'' \<noteq> ''on_error''" by simp
  show ?thesis
    using ok add_hook_unknown_event [OF ok a b c, of resetting_hook 0 "world0 []"]
    by (simp add: emit_def Mailer_init_def)
qed

section \<open>An unknown template\<close>

text \<open>
  Claim C4. When the template id is not in the registry, \<open>send_template\<close> returns
  None and leaves the mailer as it was, the message table included; the world differs
  by one line of the log only: no call of the transport or of a hook is recorded, no
  object is created or changed, no UUID is drawn and the clock is not read.
\<close>

theorem send_template_unregistered:
  assumes "dict_get (templates m) template_id = None"
  shows "send_template en m template_id to_arg context kw w
           = (Inr None, m, w\<lparr>logs := logs w @ [''Template not found: '' @ template_id]\<rparr>) \<and>
         sent_emails (fst (snd (send_template en m template_id to_arg context kw w)))
           = sent_emails m \<and>
         trace (snd (snd (send_template en m template_id to_arg context kw w))) = trace w \<and>
         ext (snd (snd (send_template en m template_id to_arg context kw w))) = ext w \<and>
         heap (snd (snd (send_template en m template_id to_arg context kw w))) = heap w \<and>
         next_ref (snd (snd (send_template en m template_id to_arg context kw w))) = next_ref w \<and>
         uuids_drawn (snd (snd (send_template en m template_id to_arg context kw w)))
           = uuids_drawn w \<and>
         clock_reads (snd (snd (send_template en m template_id to_arg context kw w)))
           = clock_reads w"
  using assms by (simp add: send_template_def)

theorem send_template_unregistered_witness:
  "dict_get (templates (register_template (Mailer_init MockTransport_send None)
       \<lparr>t_id = ''welcome'', t_name = ''Welcome Email'', t_subject = ''Hi {{name}}'',
        t_body_text = [], t_body_html = [], variables = []\<rparr>)) ''goodbye'' = None \<and>
   send_template test_env
     (register_template (Mailer_init MockTransport_send None)
       \<lparr>t_id = ''welcome'', t_name = ''Welcome Email'', t_subject = ''Hi {{name}}'',
        t_body_text = [], t_body_html = [], variables = []\<rparr>)
     ''goodbye'' [Str ''bob@example.com''] (Some [(''name'', PStr ''Bob'')]) no_kwargs (world0 [])
   = (Inr None,
      register_template (Mailer_init MockTransport_send None)
       \<lparr>t_id = ''welcome'', t_name = ''Welcome Email'', t_subject = ''Hi {{name}}'',
        t_body_text = [], t_body_html = [], variables = []\<rparr>,
      (world0 [])\<lparr>logs := [''Template not found: goodbye'']\<rparr>)"
proof -
  have absent: "dict_get (templates (register_template (Mailer_init MockTransport_send None)
       \<lparr>t_id = ''welcome'', t_name = ''Welcome Email'', t_subject = ''Hi {{name}}'',
        t_body_text = [], t_body_html = [], variables = []\<rparr>)) ''goodbye'' = None"
    by (simp add: register_template_def Mailer_init_def)
  show ?thesis
    using absent send_template_unregistered [OF absent, of test_env "[Str ''bob@example.com'']"
        "Some [(''name'', PStr ''Bob'')]" no_kwargs "world0 []"]
    by (simp add: world0_def)
qed

section \<open>The envelope of SMTPTransport.send\<close>

lemma recording_session:
  "from_addr e = Some sender \<Longrightarrow>
   smtp_session recording_smtp t e x = (None, x @ [(email sender, smtp_recipients e, subject e)])"
  by (simp add: smtp_session_def recording_smtp_def)

text \<open>
  Claim C3, with its counterexample: a message whose \<open>to\<close> and \<open>cc\<close> both hold
  \<open>a@example.com\<close> is submitted with that address twice in the envelope.
\<close>

theorem smtp_recipients_repeat_counterexample:
  "fst (SMTPTransport_send recording_smtp smtp_config 0
     ((heap (world0 []))
        (0 := (plain_email ''m1'' [address ''a@example.com''] ''S'')\<lparr>cc := [address ''a@example.com'']\<rparr>))
     []) = None \<and>
   snd (snd (SMTPTransport_send recording_smtp smtp_config 0
     ((heap (world0 []))
        (0 := (plain_email ''m1'' [address ''a@example.com''] ''S'')\<lparr>cc := [address ''a@example.com'']\<rparr>))
     []))
   = [(''noreply@example.com'', [''a@example.com'', ''a@example.com''], ''S'')] \<and>
   \<not> distinct (smtp_recipients
     ((plain_email ''m1'' [address ''a@example.com''] ''S'')\<lparr>cc := [address ''a@example.com'']\<rparr>))"
  by (simp add: SMTPTransport_send_def smtp_session_def recording_smtp_def smtp_recipients_def
      plain_email_def address_def smtp_config_def)

text \<open>
  Claim C3 as amended. The envelope recipient list that \<open>SMTPTransport.send\<close>
  submits is the concatenation of the \<open>email\<close> fields of \<open>to\<close>, \<open>cc\<close> and
  \<open>bcc\<close>, in that order: its addresses are the union of the three, and each address
  stands in it as many times as it occurs in the three sequences together.
\<close>

theorem smtp_recipients_concatenation:
  "smtp_recipients e = map email (to e) @ map email (cc e) @ map email (bcc e) \<and>
   set (smtp_recipients e) = email ` set (to e) \<union> email ` set (cc e) \<union> email ` set (bcc e) \<and>
   count_list (smtp_recipients e) a
     = count_list (map email (to e)) a + count_list (map email (cc e)) a
       + count_list (map email (bcc e)) a \<and>
   (h r = e \<and> from_addr e = Some sender \<longrightarrow>
      SMTPTransport_send recording_smtp t r h x
        = (None, h, x @ [(email sender,
                          map email (to e) @ map email (cc e) @ map email (bcc e), subject e)]))"
proof -
  have assemble: "mime_assemble recording_smtp e = None"
    by (simp add: recording_smtp_def)
  have "h r = e \<and> from_addr e = Some sender \<longrightarrow>
      SMTPTransport_send recording_smtp t r h x
        = (None, h, x @ [(email sender, smtp_recipients e, subject e)])"
  proof
    assume a: "h r = e \<and> from_addr e = Some sender"
    then have "smtp_session recording_smtp t e x
        = (None, x @ [(email sender, smtp_recipients e, subject e)])"
      by (simp add: recording_session)
    with a show "SMTPTransport_send recording_smtp t r h x
        = (None, h, x @ [(email sender, smtp_recipients e, subject e)])"
      by (simp add: SMTPTransport_send_def assemble)
  qed
  then show ?thesis
    by (auto simp: smtp_recipients_def)
qed

theorem smtp_recipients_concatenation_witness:
  "from_addr ((plain_email ''m1'' [address ''a@example.com''] ''S'')
       \<lparr>cc := [address ''a@example.com''], bcc := [address ''b@example.com'']\<rparr>)
     = Some (address ''noreply@example.com'') \<and>
   snd (snd (SMTPTransport_send recording_smtp smtp_config 0
     ((heap (world0 []))
        (0 := (plain_email ''m1'' [address ''a@example.com''] ''S'')
                \<lparr>cc := [address ''a@example.com''], bcc := [address ''b@example.com'']\<rparr>)) []))
   = [(''noreply@example.com'', [''a@example.com'', ''a@example.com'', ''b@example.com''], ''S'')]"
proof -
  have sender: "from_addr ((plain_email ''m1'' [address ''a@example.com''] ''S'')
       \<lparr>cc := [address ''a@example.com''], bcc := [address ''b@example.com'']\<rparr>)
     = Some (address ''noreply@example.com'')"
    by (simp add: plain_email_def)
  have here: "((heap (world0 []))
        (0 := (plain_email ''m1'' [address ''a@example.com''] ''S'')
                \<lparr>cc := [address ''a@example.com''], bcc := [address ''b@example.com'']\<rparr>)) 0
      = (plain_email ''m1'' [address ''a@example.com''] ''S'')
                \<lparr>cc := [address ''a@example.com''], bcc := [address ''b@example.com'']\<rparr>"
    by simp
  from sender here smtp_recipients_concatenation
      [of "(plain_email ''m1'' [address ''a@example.com''] ''S'')
             \<lparr>cc := [address ''a@example.com''], bcc := [address ''b@example.com'']\<rparr>"
          "''a@example.com''"
          "(heap (world0 []))
             (0 := (plain_email ''m1'' [address ''a@example.com''] ''S'')
                \<lparr>cc := [address ''a@example.com''], bcc := [address ''b@example.com'']\<rparr>)"
          0
          "address ''noreply@example.com''" smtp_config "[]"]
  have "snd (snd (SMTPTransport_send recording_smtp smtp_config 0
     ((heap (world0 []))
        (0 := (plain_email ''m1'' [address ''a@example.com''] ''S'')
                \<lparr>cc := [address ''a@example.com''], bcc := [address ''b@example.com'']\<rparr>)) []))
     = [] @ [(email (address ''noreply@example.com''),
         map email (to ((plain_email ''m1'' [address ''a@example.com''] ''S'')
             \<lparr>cc := [address ''a@example.com''], bcc := [address ''b@example.com'']\<rparr>))
         @ map email (cc ((plain_email ''m1'' [address ''a@example.com''] ''S'')
             \<lparr>cc := [address ''a@example.com''], bcc := [address ''b@example.com'']\<rparr>))
         @ map email (bcc ((plain_email ''m1'' [address ''a@example.com''] ''S'')
             \<lparr>cc := [address ''a@example.com''], bcc := [address ''b@example.com'']\<rparr>)),
         subject ((plain_email ''m1'' [address ''a@example.com''] ''S'')
             \<lparr>cc := [address ''a@example.com''], bcc := [address ''b@example.com'']\<rparr>))]"
    by (metis snd_conv)
  with sender show ?thesis by (simp add: plain_email_def address_def)
qed

section \<open>What the handlers do to the world\<close>

lemma keeps_result:
  assumes "keeps field c" and "c r h x = (p, h1, x1)"
  shows "field (h1 r') = field (h r')"
proof -
  from assms(1) have "field (fst (snd (c r h x)) r') = field (h r')" unfolding keeps_def by blast
  with assms(2) show ?thesis by simp
qed

lemma raises_only_Exception_result:
  assumes "raises_only_Exception c" and "c r h x = (Some err, h1, x1)"
  shows "is_Exception err"
proof -
  from assms(2) have "fst (c r h x) = Some err" by simp
  with assms(1) show ?thesis unfolding raises_only_Exception_def by blast
qed

text \<open>
  Whatever holds of the world before the loop and is kept by one call of a handler
  (which changes the state of the callables, the heap, the log and the record of
  calls, and nothing else) holds after the loop.
\<close>

lemma run_handlers_invariant:
  assumes step: "\<And>c j v v1 p h1 x1. c \<in> C \<Longrightarrow> c r (heap v) (ext v) = (p, h1, x1) \<Longrightarrow>
           ext v1 = x1 \<Longrightarrow> heap v1 = h1 \<Longrightarrow>
           trace v1 = trace v @ [Hook_call event j r (heap v r) (h1 r)] \<Longrightarrow>
           next_ref v1 = next_ref v \<Longrightarrow> uuids_drawn v1 = uuids_drawn v \<Longrightarrow>
           clock_reads v1 = clock_reads v \<Longrightarrow> P v \<Longrightarrow> P v1"
  shows "set hs \<subseteq> C \<Longrightarrow> run_handlers event i hs r w = (q, w') \<Longrightarrow> P w \<Longrightarrow> P w'"
proof (induction hs arbitrary: i w)
  case Nil
  then show ?case by simp
next
  case (Cons c hs)
  obtain p h1 x1 where c: "c r (heap w) (ext w) = (p, h1, x1)"
    by (cases "c r (heap w) (ext w)")
  from Cons.prems(1) have cin: "c \<in> C" and rest: "set hs \<subseteq> C" by simp_all
  have here: "P v1" if "ext v1 = x1" "heap v1 = h1"
      "trace v1 = trace w @ [Hook_call event i r (heap w r) (h1 r)]"
      "next_ref v1 = next_ref w" "uuids_drawn v1 = uuids_drawn w"
      "clock_reads v1 = clock_reads w" for v1
    using cin c that Cons.prems(3) by (rule step)
  show ?case
  proof (cases p)
    case None
    have P1: "P (w\<lparr>ext := x1, heap := h1,
        trace := trace w @ [Hook_call event i r (heap w r) (h1 r)]\<rparr>)"
      by (rule here) simp_all
    from Cons.prems(2) c None have "run_handlers event (Suc i) hs r
        (w\<lparr>ext := x1, heap := h1,
           trace := trace w @ [Hook_call event i r (heap w r) (h1 r)]\<rparr>) = (q, w')"
      by (simp add: Let_def)
    from Cons.IH [OF rest this P1] show ?thesis .
  next
    case (Some err)
    show ?thesis
    proof (cases "is_Exception err")
      case True
      have P1: "P (w\<lparr>ext := x1, heap := h1,
          trace := trace w @ [Hook_call event i r (heap w r) (h1 r)],
          logs := logs w @ [''Hook error: '' @ str_exn err]\<rparr>)"
        by (rule here) simp_all
      from Cons.prems(2) c Some True have "run_handlers event (Suc i) hs r
          (w\<lparr>ext := x1, heap := h1,
             trace := trace w @ [Hook_call event i r (heap w r) (h1 r)],
             logs := logs w @ [''Hook error: '' @ str_exn err]\<rparr>) = (q, w')"
        by (simp add: Let_def)
      from Cons.IH [OF rest this P1] show ?thesis .
    next
      case False
      have P1: "P (w\<lparr>ext := x1, heap := h1,
          trace := trace w @ [Hook_call event i r (heap w r) (h1 r)]\<rparr>)"
        by (rule here) simp_all
      from Cons.prems(2) c Some False have "w' = w\<lparr>ext := x1, heap := h1,
          trace := trace w @ [Hook_call event i r (heap w r) (h1 r)]\<rparr>"
        by (simp add: Let_def)
      with P1 show ?thesis by simp
    qed
  qed
qed

lemma run_handlers_escape:
  "run_handlers event i hs r w = (Some err, w') \<Longrightarrow> \<not> is_Exception err"
proof (induction hs arbitrary: i w)
  case Nil
  then show ?case by simp
next
  case (Cons c hs)
  obtain p h1 x1 where c: "c r (heap w) (ext w) = (p, h1, x1)"
    by (cases "c r (heap w) (ext w)")
  show ?case
  proof (cases p)
    case None
    with Cons.prems c have "run_handlers event (Suc i) hs r
        (w\<lparr>ext := x1, heap := h1,
           trace := trace w @ [Hook_call event i r (heap w r) (h1 r)]\<rparr>) = (Some err, w')"
      by (simp add: Let_def)
    then show ?thesis by (rule Cons.IH)
  next
    case (Some err1)
    show ?thesis
    proof (cases "is_Exception err1")
      case True
      with Cons.prems c Some have "run_handlers event (Suc i) hs r
          (w\<lparr>ext := x1, heap := h1,
             trace := trace w @ [Hook_call event i r (heap w r) (h1 r)],
             logs := logs w @ [''Hook error: '' @ str_exn err1]\<rparr>) = (Some err, w')"
        by (simp add: Let_def)
      then show ?thesis by (rule Cons.IH)
    next
      case False
      with Cons.prems c Some have "err = err1" by (simp add: Let_def)
      with False show ?thesis by simp
    qed
  qed
qed

lemma run_handlers_polite:
  "\<forall>c\<in>set hs. raises_only_Exception c \<Longrightarrow> run_handlers event i hs r w = (q, w') \<Longrightarrow> q = None"
proof (induction hs arbitrary: i w)
  case Nil
  then show ?case by simp
next
  case (Cons c hs)
  obtain p h1 x1 where c: "c r (heap w) (ext w) = (p, h1, x1)"
    by (cases "c r (heap w) (ext w)")
  from Cons.prems(1) have pc: "raises_only_Exception c"
    and rest: "\<forall>c\<in>set hs. raises_only_Exception c" by simp_all
  show ?case
  proof (cases p)
    case None
    with Cons.prems(2) c have "run_handlers event (Suc i) hs r
        (w\<lparr>ext := x1, heap := h1,
           trace := trace w @ [Hook_call event i r (heap w r) (h1 r)]\<rparr>) = (q, w')"
      by (simp add: Let_def)
    with rest show ?thesis by (rule Cons.IH)
  next
    case (Some err1)
    from pc c [unfolded Some] have "is_Exception err1" by (rule raises_only_Exception_result)
    with Cons.prems(2) c Some have "run_handlers event (Suc i) hs r
        (w\<lparr>ext := x1, heap := h1,
           trace := trace w @ [Hook_call event i r (heap w r) (h1 r)],
           logs := logs w @ [''Hook error: '' @ str_exn err1]\<rparr>) = (q, w')"
      by (simp add: Let_def)
    with rest show ?thesis by (rule Cons.IH)
  qed
qed

lemma dict_get_in_concat: "dict_get d k = Some hs \<Longrightarrow> set hs \<subseteq> set (concat (map snd d))"
proof (induction d)
  case Nil
  then show ?case by simp
next
  case (Cons kv d)
  obtain k' v where kv: "kv = (k', v)" by (cases kv)
  show ?case
  proof (cases "k' = k")
    case True
    with Cons.prems kv have "hs = v" by simp
    with kv show ?thesis by simp
  next
    case False
    with Cons.prems kv have "dict_get d k = Some hs" by simp
    from Cons.IH [OF this] show ?thesis by auto
  qed
qed

lemma event_hooks_subset:
  "set (case dict_get (hooks m) event of None \<Rightarrow> [] | Some hs \<Rightarrow> hs) \<subseteq> set (all_hooks m)"
proof (cases "dict_get (hooks m) event")
  case None
  then show ?thesis by simp
next
  case (Some hs)
  from dict_get_in_concat [OF Some] show ?thesis by (simp add: all_hooks_def Some)
qed

lemma emit_invariant:
  assumes step: "\<And>c j v v1 p h1 x1. c \<in> set (all_hooks m) \<Longrightarrow>
           c r (heap v) (ext v) = (p, h1, x1) \<Longrightarrow>
           ext v1 = x1 \<Longrightarrow> heap v1 = h1 \<Longrightarrow>
           trace v1 = trace v @ [Hook_call event j r (heap v r) (h1 r)] \<Longrightarrow>
           next_ref v1 = next_ref v \<Longrightarrow> uuids_drawn v1 = uuids_drawn v \<Longrightarrow>
           clock_reads v1 = clock_reads v \<Longrightarrow> P v \<Longrightarrow> P v1"
    and run: "emit m event r w = (q, w')" and start: "P w"
  shows "P w'"
proof -
  have sub: "set (case dict_get (hooks m) event of None \<Rightarrow> [] | Some hs \<Rightarrow> hs)
      \<subseteq> set (all_hooks m)"
    by (rule event_hooks_subset)
  from run have run': "run_handlers event 0
      (case dict_get (hooks m) event of None \<Rightarrow> [] | Some hs \<Rightarrow> hs) r w = (q, w')"
    by (simp add: emit_def)
  show ?thesis
    by (rule run_handlers_invariant [where P = P and C = "set (all_hooks m)", OF step sub run' start])
qed

lemma emit_escape: "emit m event r w = (Some err, w') \<Longrightarrow> \<not> is_Exception err"
  unfolding emit_def by (rule run_handlers_escape)

lemma emit_polite:
  assumes "polite m" and "emit m event r w = (q, w')"
  shows "q = None"
proof -
  from assms(1) have "\<forall>c\<in>set (all_hooks m). raises_only_Exception c"
    by (simp add: polite_def callables_def)
  then have "\<forall>c\<in>set (case dict_get (hooks m) event of None \<Rightarrow> [] | Some hs \<Rightarrow> hs).
      raises_only_Exception c"
    using event_hooks_subset by blast
  then show ?thesis using assms(2) unfolding emit_def by (rule run_handlers_polite)
qed

lemma emit_counters:
  assumes "emit m event r w = (q, w')"
  shows "next_ref w' = next_ref w \<and> uuids_drawn w' = uuids_drawn w \<and>
         clock_reads w' = clock_reads w"
proof -
  have "(\<lambda>v. next_ref v = next_ref w \<and> uuids_drawn v = uuids_drawn w \<and>
      clock_reads v = clock_reads w) w'"
    by (rule emit_invariant [where P = "\<lambda>v. next_ref v = next_ref w \<and>
      uuids_drawn v = uuids_drawn w \<and> clock_reads v = clock_reads w", OF _ assms]) simp_all
  then show ?thesis by simp
qed

lemma emit_transport_calls:
  assumes "emit m event r w = (q, w')"
  shows "transport_calls w' = transport_calls w"
proof -
  have "(\<lambda>v. transport_calls v = transport_calls w) w'"
    by (rule emit_invariant [where P = "\<lambda>v. transport_calls v = transport_calls w", OF _ assms])
       (simp_all add: transport_calls_def)
  then show ?thesis by simp
qed


lemma replicate_two_more: "replicate n s @ [s, s] = replicate (Suc (Suc n)) s"
  by (induction n) auto

lemma emit_statuses:
  assumes "\<forall>c\<in>set (all_hooks m). keeps status c" and "emit m event r w = (q, w')"
  shows "\<exists>evs n. trace w' = trace w @ evs \<and>
           concat (map event_statuses evs) = replicate n (status (heap w r))"
proof -
  have "(\<lambda>v. status (heap v r) = status (heap w r) \<and>
      (\<exists>evs n. trace v = trace w @ evs \<and>
         concat (map event_statuses evs) = replicate n (status (heap w r)))) w'"
  proof (rule emit_invariant [where P = "\<lambda>v. status (heap v r) = status (heap w r) \<and>
      (\<exists>evs n. trace v = trace w @ evs \<and>
         concat (map event_statuses evs) = replicate n (status (heap w r)))", OF _ assms(2)])
    have "trace w = trace w @ [] \<and>
        concat (map event_statuses []) = replicate 0 (status (heap w r))" by simp
    then show "status (heap w r) = status (heap w r) \<and>
      (\<exists>evs n. trace w = trace w @ evs \<and>
         concat (map event_statuses evs) = replicate n (status (heap w r)))"
      by blast
  next
    fix c j v v1 p h1 x1
    assume c: "c \<in> set (all_hooks m)" and call: "c r (heap v) (ext v) = (p, h1, x1)"
      and h: "heap v1 = h1"
      and t: "trace v1 = trace v @ [Hook_call event j r (heap v r) (h1 r)]"
      and before: "status (heap v r) = status (heap w r) \<and>
        (\<exists>evs n. trace v = trace w @ evs \<and>
           concat (map event_statuses evs) = replicate n (status (heap w r)))"
    from assms(1) c have "keeps status c" by blast
    from this call have same: "status (h1 r) = status (heap v r)" by (rule keeps_result)
    from before obtain evs n where evs: "trace v = trace w @ evs"
      "concat (map event_statuses evs) = replicate n (status (heap w r))"
      by blast
    have "trace v1 = trace w @ (evs @ [Hook_call event j r (heap v r) (h1 r)])"
      using t evs(1) by simp
    moreover have "concat (map event_statuses (evs @ [Hook_call event j r (heap v r) (h1 r)]))
        = replicate (Suc (Suc n)) (status (heap w r))"
      using evs(2) same before by (simp add: replicate_two_more del: replicate_Suc)
    ultimately have "\<exists>evs n. trace v1 = trace w @ evs \<and>
           concat (map event_statuses evs) = replicate n (status (heap w r))"
      by blast
    with h same before show "status (heap v1 r) = status (heap w r) \<and>
        (\<exists>evs n. trace v1 = trace w @ evs \<and>
           concat (map event_statuses evs) = replicate n (status (heap w r)))"
      by simp
  qed
  then show ?thesis by simp
qed

section \<open>The stages of a send\<close>

lemma Email_init_accepts:
  "kwargs_ok kw \<Longrightarrow> \<exists>e w1. Email_init en i rc subj btext bhtml sender tracking kw w = (Inr e, w1)"
  by (simp add: Email_init_def kwargs_ok_def)

lemma Email_init_world:
  assumes "Email_init en i rc subj btext bhtml sender tracking kw w = (res, w0)"
  shows "w0 = w \<or> w0 = w\<lparr>clock_reads := Suc (clock_reads w)\<rparr>"
  using assms by (cases "kw_created_at kw") (auto simp: Email_init_def split: if_splits)

lemma send_prepare_rejected:
  assumes "Email_init en (take 12 (uuid4 en (uuids_drawn w))) (map to_address to_arg)
      subj btext bhtml (case kw_from_addr kw of None \<Rightarrow> Some (default_from m) | Some v \<Rightarrow> v)
      (take 8 (uuid4 en (Suc (uuids_drawn w)))) kw (w\<lparr>uuids_drawn := uuids_drawn w + 2\<rparr>)
      = (Inl err, w0)"
  shows "send_prepare en m to_arg subj btext bhtml kw w = (Inl err, w0)"
  using assms by (simp add: send_prepare_def Let_def)

lemma send_prepare_built:
  assumes "Email_init en (take 12 (uuid4 en (uuids_drawn w))) (map to_address to_arg)
      subj btext bhtml (case kw_from_addr kw of None \<Rightarrow> Some (default_from m) | Some v \<Rightarrow> v)
      (take 8 (uuid4 en (Suc (uuids_drawn w)))) kw (w\<lparr>uuids_drawn := uuids_drawn w + 2\<rparr>)
      = (Inr e, w0)"
    and "emit m ''before_send'' (next_ref w0)
      (w0\<lparr>heap := (heap w0)(next_ref w0 := e), next_ref := Suc (next_ref w0)\<rparr>) = (q, w3)"
  shows "send_prepare en m to_arg subj btext bhtml kw w =
     (case q of
        Some err \<Rightarrow> (Inl err, w3)
      | None \<Rightarrow> (Inr (next_ref w0),
                 w3\<lparr>heap := (heap w3)(next_ref w0 := (heap w3 (next_ref w0))\<lparr>status := SENDING\<rparr>)\<rparr>))"
  using assms by (simp add: send_prepare_def Let_def split: option.splits)

lemma send_prepare_accepts:
  assumes "kwargs_ok kw" and "polite m"
  shows "\<exists>r w1. send_prepare en m to_arg subj btext bhtml kw w = (Inr r, w1)"
proof -
  obtain e w0 where init: "Email_init en (take 12 (uuid4 en (uuids_drawn w))) (map to_address to_arg)
      subj btext bhtml (case kw_from_addr kw of None \<Rightarrow> Some (default_from m) | Some v \<Rightarrow> v)
      (take 8 (uuid4 en (Suc (uuids_drawn w)))) kw (w\<lparr>uuids_drawn := uuids_drawn w + 2\<rparr>) = (Inr e, w0)"
    using Email_init_accepts [OF assms(1)] by blast
  obtain q w3 where em: "emit m ''before_send'' (next_ref w0)
      (w0\<lparr>heap := (heap w0)(next_ref w0 := e), next_ref := Suc (next_ref w0)\<rparr>) = (q, w3)"
    by (cases "emit m ''before_send'' (next_ref w0)
      (w0\<lparr>heap := (heap w0)(next_ref w0 := e), next_ref := Suc (next_ref w0)\<rparr>)")
  from emit_polite [OF assms(2) em] have "q = None" .
  with send_prepare_built [OF init em] show ?thesis by simp
qed

lemma send_deliver_returned:
  assumes "transport m r (heap w) (ext w) = (None, h1, x1)"
  shows "send_deliver en m r w =
     (case emit m ''after_send'' r
             (w\<lparr>ext := x1,
                trace := trace w @ [Transport_call r (heap w r) (h1 r)],
                heap := h1(r := (h1 r)\<lparr>status := SENT, sent_at := Some (now en (clock_reads w))\<rparr>),
                clock_reads := Suc (clock_reads w)\<rparr>) of
        (Some err, w2) \<Rightarrow> (Inl err, m, w2)
      | (None, w2) \<Rightarrow> send_store m r w2)"
  using assms by (simp add: send_deliver_def Let_def)

lemma send_deliver_raised:
  assumes "transport m r (heap w) (ext w) = (Some err, h1, x1)" and "is_Exception err"
  shows "send_deliver en m r w =
     (case emit m ''on_error'' r
             (w\<lparr>ext := x1,
                trace := trace w @ [Transport_call r (heap w r) (h1 r)],
                heap := h1(r := (h1 r)\<lparr>status := FAILED, error := Some (str_exn err)\<rparr>)\<rparr>) of
        (Some err', w2) \<Rightarrow> (Inl err', m, w2)
      | (None, w2) \<Rightarrow> send_store m r w2)"
  using assms by (simp add: send_deliver_def Let_def)

lemma send_deliver_escaped:
  assumes "transport m r (heap w) (ext w) = (Some err, h1, x1)" and "\<not> is_Exception err"
  shows "send_deliver en m r w =
     (Inl err, m, w\<lparr>ext := x1, heap := h1,
                     trace := trace w @ [Transport_call r (heap w r) (h1 r)]\<rparr>)"
  using assms by (simp add: send_deliver_def Let_def)

lemma send_prepared:
  assumes "send_prepare en m to_arg subj btext bhtml kw w = (Inr r, w1)"
  shows "send en m to_arg subj btext bhtml kw w = send_deliver en m r w1"
  using assms by (simp add: send_def)

lemma send_deliver_accepts:
  assumes "polite m"
  shows "\<exists>m1 w1. send_deliver en m r w = (Inr r, m1, w1)"
proof -
  obtain p h1 x1 where call: "transport m r (heap w) (ext w) = (p, h1, x1)"
    by (cases "transport m r (heap w) (ext w)")
  from assms have tp: "raises_only_Exception (transport m)" by (simp add: polite_def callables_def)
  show ?thesis
  proof (cases p)
    case None
    obtain q w2 where em: "emit m ''after_send'' r
             (w\<lparr>ext := x1,
                trace := trace w @ [Transport_call r (heap w r) (h1 r)],
                heap := h1(r := (h1 r)\<lparr>status := SENT, sent_at := Some (now en (clock_reads w))\<rparr>),
                clock_reads := Suc (clock_reads w)\<rparr>) = (q, w2)"
      by (cases "emit m ''after_send'' r
             (w\<lparr>ext := x1,
                trace := trace w @ [Transport_call r (heap w r) (h1 r)],
                heap := h1(r := (h1 r)\<lparr>status := SENT, sent_at := Some (now en (clock_reads w))\<rparr>),
                clock_reads := Suc (clock_reads w)\<rparr>)")
    from emit_polite [OF assms em] have "q = None" .
    with send_deliver_returned [OF call [unfolded None]] em show ?thesis
      by (simp add: send_store_def)
  next
    case (Some err)
    from tp call [unfolded Some] have ex: "is_Exception err" by (rule raises_only_Exception_result)
    obtain q w2 where em: "emit m ''on_error'' r
             (w\<lparr>ext := x1,
                trace := trace w @ [Transport_call r (heap w r) (h1 r)],
                heap := h1(r := (h1 r)\<lparr>status := FAILED, error := Some (str_exn err)\<rparr>)\<rparr>) = (q, w2)"
      by (cases "emit m ''on_error'' r
             (w\<lparr>ext := x1,
                trace := trace w @ [Transport_call r (heap w r) (h1 r)],
                heap := h1(r := (h1 r)\<lparr>status := FAILED, error := Some (str_exn err)\<rparr>)\<rparr>)")
    from emit_polite [OF assms em] have "q = None" .
    with send_deliver_raised [OF call [unfolded Some] ex] em show ?thesis
      by (simp add: send_store_def)
  qed
qed

lemma send_accepts:
  assumes "kwargs_ok kw" and "polite m"
  shows "\<exists>r m1 w1. send en m to_arg subj btext bhtml kw w = (Inr r, m1, w1)"
proof -
  obtain r w1 where prep: "send_prepare en m to_arg subj btext bhtml kw w = (Inr r, w1)"
    using send_prepare_accepts [OF assms] by blast
  from send_deliver_accepts [OF assms(2)] obtain m1 w2
    where "send_deliver en m r w1 = (Inr r, m1, w2)" by blast
  with send_prepared [OF prep] show ?thesis by simp
qed

section \<open>The outcomes of a send\<close>

text \<open>
  Claim C1, with its counterexamples. A transport that is interrupted from the
  keyboard: the exception leaves \<open>send\<close>, no hook is fired, nothing is stored and
  the message stays in the status \<open>sending\<close>. And a transport that refuses, with an
  \<open>on_error\<close> hook that exits: the transport's exception is caught and the message
  marked as failed, but the hook's exception leaves \<open>send\<close> and nothing is stored.
\<close>

theorem send_outcome_counterexample:
  "fst (send test_env interrupted_mailer [Str ''a@example.com''] ''S'' ''T'' [] no_kwargs (world0 0))
     = Inl KeyboardInterrupt \<and>
   sent_emails (fst (snd
     (send test_env interrupted_mailer [Str ''a@example.com''] ''S'' ''T'' [] no_kwargs (world0 0))))
     = [] \<and>
   map event_label (trace (snd (snd
     (send test_env interrupted_mailer [Str ''a@example.com''] ''S'' ''T'' [] no_kwargs (world0 0)))))
     = [(''transport'', 0)] \<and>
   status (heap (snd (snd
     (send test_env interrupted_mailer [Str ''a@example.com''] ''S'' ''T'' [] no_kwargs (world0 0)))) 0)
     = SENDING \<and>
   fst (send test_env exiting_mailer [Str ''a@example.com''] ''S'' ''T'' [] no_kwargs (world0 0))
     = Inl (SystemExit ''bye'') \<and>
   sent_emails (fst (snd
     (send test_env exiting_mailer [Str ''a@example.com''] ''S'' ''T'' [] no_kwargs (world0 0))))
     = [] \<and>
   status (heap (snd (snd
     (send test_env exiting_mailer [Str ''a@example.com''] ''S'' ''T'' [] no_kwargs (world0 0)))) 0)
     = FAILED"
  by (simp add: send_def send_prepare_def send_deliver_def send_store_def Let_def Email_init_def
      no_kwargs_def emit_def interrupted_mailer_def exiting_mailer_def add_hook_def
      Mailer_init_def interrupted_transport_def refusing_transport_def exiting_hook_def
      counting_hook_def world0_def)

text \<open>
  Claim C1 as amended. In a call of \<open>Mailer.send\<close> that reaches the transport:
  when the transport raises an instance of \<open>Exception\<close>, \<open>send\<close> does not
  propagate that exception; it sets the status to \<open>failed\<close> and \<open>error\<close> to the
  description of the exception, then fires the \<open>on_error\<close> hooks on that message;
  then, unless a hook raised an exception that is no instance of \<open>Exception\<close>
  (which leaves \<open>send\<close>), it stores the message in the table under its id and
  returns it. When the transport returns, \<open>send\<close> sets the status to \<open>sent\<close> and
  \<open>sent_at\<close> to the clock's reading, fires the \<open>after_send\<close> hooks, and likewise
  stores and returns the message. An exception of the transport that is no instance of
  \<open>Exception\<close> leaves \<open>send\<close>: no hook is fired and nothing is stored.
\<close>

theorem send_resolves_transport_outcome:
  assumes "send_prepare en m to_arg subj btext bhtml kw w = (Inr r, w1)"
    and "transport m r (heap w1) (ext w1) = (p, h1, x1)"
  shows "(\<forall>err. p = Some err \<and> is_Exception err \<longrightarrow>
            (\<exists>q w2.
               emit m ''on_error'' r
                 (w1\<lparr>ext := x1,
                     trace := trace w1 @ [Transport_call r (heap w1 r) (h1 r)],
                     heap := h1(r := (h1 r)\<lparr>status := FAILED, error := Some (str_exn err)\<rparr>)\<rparr>) = (q, w2) \<and>
               (q = None \<longrightarrow>
                  send en m to_arg subj btext bhtml kw w
                    = (Inr r, m\<lparr>sent_emails :=
                                  dict_set (sent_emails m) (email_id (heap w2 r)) r\<rparr>, w2) \<and>
                  get_email (m\<lparr>sent_emails := dict_set (sent_emails m) (email_id (heap w2 r)) r\<rparr>)
                    (email_id (heap w2 r)) = Some r) \<and>
               (\<forall>err'. q = Some err' \<longrightarrow>
                  \<not> is_Exception err' \<and>
                  send en m to_arg subj btext bhtml kw w = (Inl err', m, w2)))) \<and>
         (p = None \<longrightarrow>
            (\<exists>q w2.
               emit m ''after_send'' r
                 (w1\<lparr>ext := x1,
                     trace := trace w1 @ [Transport_call r (heap w1 r) (h1 r)],
                     heap := h1(r := (h1 r)\<lparr>status := SENT,
                                              sent_at := Some (now en (clock_reads w1))\<rparr>),
                     clock_reads := Suc (clock_reads w1)\<rparr>) = (q, w2) \<and>
               (q = None \<longrightarrow>
                  send en m to_arg subj btext bhtml kw w
                    = (Inr r, m\<lparr>sent_emails :=
                                  dict_set (sent_emails m) (email_id (heap w2 r)) r\<rparr>, w2) \<and>
                  get_email (m\<lparr>sent_emails := dict_set (sent_emails m) (email_id (heap w2 r)) r\<rparr>)
                    (email_id (heap w2 r)) = Some r) \<and>
               (\<forall>err'. q = Some err' \<longrightarrow>
                  \<not> is_Exception err' \<and>
                  send en m to_arg subj btext bhtml kw w = (Inl err', m, w2)))) \<and>
         (\<forall>err. p = Some err \<and> \<not> is_Exception err \<longrightarrow>
            send en m to_arg subj btext bhtml kw w
              = (Inl err, m, w1\<lparr>ext := x1, heap := h1,
                                 trace := trace w1 @ [Transport_call r (heap w1 r) (h1 r)]\<rparr>))"
proof (intro conjI allI impI)
  fix err
  assume "p = Some err \<and> is_Exception err"
  then have p: "p = Some err" and ex: "is_Exception err" by simp_all
  obtain q w2 where em: "emit m ''on_error'' r
      (w1\<lparr>ext := x1,
          trace := trace w1 @ [Transport_call r (heap w1 r) (h1 r)],
          heap := h1(r := (h1 r)\<lparr>status := FAILED, error := Some (str_exn err)\<rparr>)\<rparr>) = (q, w2)"
    by (cases "emit m ''on_error'' r
      (w1\<lparr>ext := x1,
          trace := trace w1 @ [Transport_call r (heap w1 r) (h1 r)],
          heap := h1(r := (h1 r)\<lparr>status := FAILED, error := Some (str_exn err)\<rparr>)\<rparr>)")
  have outcome: "send en m to_arg subj btext bhtml kw w =
      (case q of Some err' \<Rightarrow> (Inl err', m, w2) | None \<Rightarrow> send_store m r w2)"
    unfolding send_prepared [OF assms(1)] send_deliver_raised [OF assms(2) [unfolded p] ex]
    using em by (simp split: option.splits)
  have "q = None \<longrightarrow>
      send en m to_arg subj btext bhtml kw w
        = (Inr r, m\<lparr>sent_emails := dict_set (sent_emails m) (email_id (heap w2 r)) r\<rparr>, w2) \<and>
      get_email (m\<lparr>sent_emails := dict_set (sent_emails m) (email_id (heap w2 r)) r\<rparr>)
        (email_id (heap w2 r)) = Some r"
    using outcome by (simp add: send_store_def get_email_def dict_get_dict_set)
  moreover have "\<forall>err'. q = Some err' \<longrightarrow>
      \<not> is_Exception err' \<and> send en m to_arg subj btext bhtml kw w = (Inl err', m, w2)"
  proof (intro allI impI)
    fix err'
    assume q: "q = Some err'"
    from em [unfolded q] have "\<not> is_Exception err'" by (rule emit_escape)
    moreover from outcome q
    have "send en m to_arg subj btext bhtml kw w = (Inl err', m, w2)" by simp
    ultimately show "\<not> is_Exception err' \<and>
        send en m to_arg subj btext bhtml kw w = (Inl err', m, w2)" by simp
  qed
  ultimately show "\<exists>q w2.
      emit m ''on_error'' r
        (w1\<lparr>ext := x1,
            trace := trace w1 @ [Transport_call r (heap w1 r) (h1 r)],
            heap := h1(r := (h1 r)\<lparr>status := FAILED, error := Some (str_exn err)\<rparr>)\<rparr>) = (q, w2) \<and>
      (q = None \<longrightarrow>
         send en m to_arg subj btext bhtml kw w
           = (Inr r, m\<lparr>sent_emails := dict_set (sent_emails m) (email_id (heap w2 r)) r\<rparr>, w2) \<and>
         get_email (m\<lparr>sent_emails := dict_set (sent_emails m) (email_id (heap w2 r)) r\<rparr>)
           (email_id (heap w2 r)) = Some r) \<and>
      (\<forall>err'. q = Some err' \<longrightarrow>
         \<not> is_Exception err' \<and> send en m to_arg subj btext bhtml kw w = (Inl err', m, w2))"
    using em by blast
next
  assume p: "p = None"
  obtain q w2 where em: "emit m ''after_send'' r
      (w1\<lparr>ext := x1,
          trace := trace w1 @ [Transport_call r (heap w1 r) (h1 r)],
          heap := h1(r := (h1 r)\<lparr>status := SENT, sent_at := Some (now en (clock_reads w1))\<rparr>),
          clock_reads := Suc (clock_reads w1)\<rparr>) = (q, w2)"
    by (cases "emit m ''after_send'' r
      (w1\<lparr>ext := x1,
          trace := trace w1 @ [Transport_call r (heap w1 r) (h1 r)],
          heap := h1(r := (h1 r)\<lparr>status := SENT, sent_at := Some (now en (clock_reads w1))\<rparr>),
          clock_reads := Suc (clock_reads w1)\<rparr>)")
  have outcome: "send en m to_arg subj btext bhtml kw w =
      (case q of Some err' \<Rightarrow> (Inl err', m, w2) | None \<Rightarrow> send_store m r w2)"
    unfolding send_prepared [OF assms(1)] send_deliver_returned [OF assms(2) [unfolded p]]
    using em by (simp split: option.splits)
  have "q = None \<longrightarrow>
      send en m to_arg subj btext bhtml kw w
        = (Inr r, m\<lparr>sent_emails := dict_set (sent_emails m) (email_id (heap w2 r)) r\<rparr>, w2) \<and>
      get_email (m\<lparr>sent_emails := dict_set (sent_emails m) (email_id (heap w2 r)) r\<rparr>)
        (email_id (heap w2 r)) = Some r"
    using outcome by (simp add: send_store_def get_email_def dict_get_dict_set)
  moreover have "\<forall>err'. q = Some err' \<longrightarrow>
      \<not> is_Exception err' \<and> send en m to_arg subj btext bhtml kw w = (Inl err', m, w2)"
  proof (intro allI impI)
    fix err'
    assume q: "q = Some err'"
    from em [unfolded q] have "\<not> is_Exception err'" by (rule emit_escape)
    moreover from outcome q
    have "send en m to_arg subj btext bhtml kw w = (Inl err', m, w2)" by simp
    ultimately show "\<not> is_Exception err' \<and>
        send en m to_arg subj btext bhtml kw w = (Inl err', m, w2)" by simp
  qed
  ultimately show "\<exists>q w2.
      emit m ''after_send'' r
        (w1\<lparr>ext := x1,
            trace := trace w1 @ [Transport_call r (heap w1 r) (h1 r)],
            heap := h1(r := (h1 r)\<lparr>status := SENT, sent_at := Some (now en (clock_reads w1))\<rparr>),
            clock_reads := Suc (clock_reads w1)\<rparr>) = (q, w2) \<and>
      (q = None \<longrightarrow>
         send en m to_arg subj btext bhtml kw w
           = (Inr r, m\<lparr>sent_emails := dict_set (sent_emails m) (email_id (heap w2 r)) r\<rparr>, w2) \<and>
         get_email (m\<lparr>sent_emails := dict_set (sent_emails m) (email_id (heap w2 r)) r\<rparr>)
           (email_id (heap w2 r)) = Some r) \<and>
      (\<forall>err'. q = Some err' \<longrightarrow>
         \<not> is_Exception err' \<and> send en m to_arg subj btext bhtml kw w = (Inl err', m, w2))"
    using em by blast
next
  fix err
  assume "p = Some err \<and> \<not> is_Exception err"
  then have p: "p = Some err" and ex: "\<not> is_Exception err" by simp_all
  show "send en m to_arg subj btext bhtml kw w
      = (Inl err, m, w1\<lparr>ext := x1, heap := h1,
                         trace := trace w1 @ [Transport_call r (heap w1 r) (h1 r)]\<rparr>)"
    unfolding send_prepared [OF assms(1)]
    by (rule send_deliver_escaped [OF assms(2) [unfolded p] ex])
qed

lemma refused_mailer_parts:
  "dict_get (hooks refused_mailer) ''on_error'' = Some [counting_hook]"
  "transport refused_mailer = refusing_transport"
  "sent_emails refused_mailer = []"
  by (simp_all add: refused_mailer_def add_hook_def Mailer_init_def)

theorem send_resolves_transport_outcome_witness:
  "\<exists>m1 w2.
     send test_env refused_mailer [Str ''a@example.com''] ''S'' ''T'' [] no_kwargs (world0 0)
       = (Inr 0, m1, w2) \<and>
     status (heap w2 0) = FAILED \<and> error (heap w2 0) = Some ''Connection refused'' \<and>
     sent_at (heap w2 0) = None \<and> get_email m1 (email_id (heap w2 0)) = Some 0 \<and> ext w2 = 1"
proof -
  have "\<exists>w1. send_prepare test_env refused_mailer [Str ''a@example.com''] ''S'' ''T'' [] no_kwargs
      (world0 0) = (Inr 0, w1) \<and> sent_at (heap w1 0) = None \<and> ext w1 = 0"
    by (simp add: send_prepare_def Let_def Email_init_def no_kwargs_def emit_def
        refused_mailer_def add_hook_def Mailer_init_def world0_def)
  then obtain w1 where prep:
    "send_prepare test_env refused_mailer [Str ''a@example.com''] ''S'' ''T'' [] no_kwargs (world0 0)
       = (Inr 0, w1)"
    and quiet: "sent_at (heap w1 0) = None" "ext w1 = 0"
    by blast
  have call: "transport refused_mailer 0 (heap w1) (ext w1)
      = (Some (OtherError ''Connection refused''), heap w1, ext w1)"
    by (simp add: refused_mailer_parts refusing_transport_def)
  have fired: "emit refused_mailer ''on_error'' 0
      (w1\<lparr>ext := ext w1,
          trace := trace w1 @ [Transport_call 0 (heap w1 0) (heap w1 0)],
          heap := (heap w1)(0 := (heap w1 0)\<lparr>status := FAILED,
                     error := Some (str_exn (OtherError ''Connection refused''))\<rparr>)\<rparr>)
    = (None,
       w1\<lparr>ext := Suc (ext w1),
          trace := trace w1 @ [Transport_call 0 (heap w1 0) (heap w1 0),
            Hook_call ''on_error'' 0 0
              ((heap w1 0)\<lparr>status := FAILED, error := Some ''Connection refused''\<rparr>)
              ((heap w1 0)\<lparr>status := FAILED, error := Some ''Connection refused''\<rparr>)],
          heap := (heap w1)(0 := (heap w1 0)\<lparr>status := FAILED,
                     error := Some ''Connection refused''\<rparr>)\<rparr>)"
    by (simp add: emit_def refused_mailer_parts counting_hook_def)
  have ex: "is_Exception (OtherError ''Connection refused'')" by simp
  from send_resolves_transport_outcome [OF prep call] ex fired
  have "send test_env refused_mailer [Str ''a@example.com''] ''S'' ''T'' [] no_kwargs (world0 0)
      = (Inr 0,
         refused_mailer\<lparr>sent_emails := dict_set (sent_emails refused_mailer)
            (email_id (heap w1 0)) 0\<rparr>,
         w1\<lparr>ext := Suc (ext w1),
          trace := trace w1 @ [Transport_call 0 (heap w1 0) (heap w1 0),
            Hook_call ''on_error'' 0 0
              ((heap w1 0)\<lparr>status := FAILED, error := Some ''Connection refused''\<rparr>)
              ((heap w1 0)\<lparr>status := FAILED, error := Some ''Connection refused''\<rparr>)],
          heap := (heap w1)(0 := (heap w1 0)\<lparr>status := FAILED,
                     error := Some ''Connection refused''\<rparr>)\<rparr>)"
    by auto
  with quiet show ?thesis by (simp add: get_email_def dict_get_dict_set)
qed

section \<open>The shape of the two stages\<close>

lemma send_prepare_cases:
  assumes "send_prepare en m to_arg subj btext bhtml kw w = (res, w1)"
  obtains (rejected) err where "res = Inl err" and "w1 = w\<lparr>uuids_drawn := uuids_drawn w + 2\<rparr>"
  | (built) e w0 q w3 where
      "Email_init en (take 12 (uuid4 en (uuids_drawn w))) (map to_address to_arg)
         subj btext bhtml (case kw_from_addr kw of None \<Rightarrow> Some (default_from m) | Some v \<Rightarrow> v)
         (take 8 (uuid4 en (Suc (uuids_drawn w)))) kw (w\<lparr>uuids_drawn := uuids_drawn w + 2\<rparr>)
       = (Inr e, w0)"
      and "heap w0 = heap w" and "next_ref w0 = next_ref w" and "trace w0 = trace w"
      and "emit m ''before_send'' (next_ref w)
             (w0\<lparr>heap := (heap w)(next_ref w := e), next_ref := Suc (next_ref w)\<rparr>) = (q, w3)"
      and "(\<exists>err. q = Some err \<and> res = Inl err \<and> w1 = w3) \<or>
           (q = None \<and> res = Inr (next_ref w) \<and>
            w1 = w3\<lparr>heap := (heap w3)(next_ref w := (heap w3 (next_ref w))\<lparr>status := SENDING\<rparr>)\<rparr>)"
proof -
  obtain res0 w0 where init:
    "Email_init en (take 12 (uuid4 en (uuids_drawn w))) (map to_address to_arg)
       subj btext bhtml (case kw_from_addr kw of None \<Rightarrow> Some (default_from m) | Some v \<Rightarrow> v)
       (take 8 (uuid4 en (Suc (uuids_drawn w)))) kw (w\<lparr>uuids_drawn := uuids_drawn w + 2\<rparr>)
     = (res0, w0)"
    by (cases "Email_init en (take 12 (uuid4 en (uuids_drawn w))) (map to_address to_arg)
       subj btext bhtml (case kw_from_addr kw of None \<Rightarrow> Some (default_from m) | Some v \<Rightarrow> v)
       (take 8 (uuid4 en (Suc (uuids_drawn w)))) kw (w\<lparr>uuids_drawn := uuids_drawn w + 2\<rparr>)")
  from Email_init_world [OF init]
  have w0: "heap w0 = heap w" "next_ref w0 = next_ref w" "trace w0 = trace w" by auto
  show thesis
  proof (cases res0)
    case (Inl err)
    from init Inl have "w0 = w\<lparr>uuids_drawn := uuids_drawn w + 2\<rparr>"
      by (auto simp: Email_init_def split: if_splits)
    moreover from send_prepare_rejected [OF init [unfolded Inl]] assms
    have "res = Inl err" "w1 = w0" by simp_all
    ultimately show thesis using rejected by simp
  next
    case (Inr e)
    obtain q w3 where em: "emit m ''before_send'' (next_ref w0)
        (w0\<lparr>heap := (heap w0)(next_ref w0 := e), next_ref := Suc (next_ref w0)\<rparr>) = (q, w3)"
      by (cases "emit m ''before_send'' (next_ref w0)
        (w0\<lparr>heap := (heap w0)(next_ref w0 := e), next_ref := Suc (next_ref w0)\<rparr>)")
    from send_prepare_built [OF init [unfolded Inr] em] assms
    have "(\<exists>err. q = Some err \<and> res = Inl err \<and> w1 = w3) \<or>
           (q = None \<and> res = Inr (next_ref w) \<and>
            w1 = w3\<lparr>heap := (heap w3)(next_ref w := (heap w3 (next_ref w))\<lparr>status := SENDING\<rparr>)\<rparr>)"
      using w0 by (cases q) auto
    with built [OF init [unfolded Inr] w0] em w0 show thesis by simp
  qed
qed

lemma send_deliver_cases:
  assumes "send_deliver en m r w = (res, m1, w1)"
  obtains (escaped) err h1 x1 where
      "transport m r (heap w) (ext w) = (Some err, h1, x1)" and "\<not> is_Exception err"
      and "res = Inl err" and "m1 = m"
      and "w1 = w\<lparr>ext := x1, heap := h1,
                   trace := trace w @ [Transport_call r (heap w r) (h1 r)]\<rparr>"
  | (resolved) p h1 x1 event wr q where
      "transport m r (heap w) (ext w) = (p, h1, x1)"
      and "(p = None \<and> event = ''after_send'' \<and>
            wr = w\<lparr>ext := x1,
                   trace := trace w @ [Transport_call r (heap w r) (h1 r)],
                   heap := h1(r := (h1 r)\<lparr>status := SENT,
                                            sent_at := Some (now en (clock_reads w))\<rparr>),
                   clock_reads := Suc (clock_reads w)\<rparr>) \<or>
           (\<exists>err. p = Some err \<and> is_Exception err \<and> event = ''on_error'' \<and>
            wr = w\<lparr>ext := x1,
                   trace := trace w @ [Transport_call r (heap w r) (h1 r)],
                   heap := h1(r := (h1 r)\<lparr>status := FAILED, error := Some (str_exn err)\<rparr>)\<rparr>)"
      and "emit m event r wr = (q, w1)"
      and "(q = None \<and> res = Inr r \<and>
            m1 = m\<lparr>sent_emails := dict_set (sent_emails m) (email_id (heap w1 r)) r\<rparr>) \<or>
           (\<exists>err'. q = Some err' \<and> res = Inl err' \<and> m1 = m)"
proof -
  obtain p h1 x1 where call: "transport m r (heap w) (ext w) = (p, h1, x1)"
    by (cases "transport m r (heap w) (ext w)")
  show thesis
  proof (cases p)
    case None
    obtain q w2 where em: "emit m ''after_send'' r
        (w\<lparr>ext := x1,
           trace := trace w @ [Transport_call r (heap w r) (h1 r)],
           heap := h1(r := (h1 r)\<lparr>status := SENT, sent_at := Some (now en (clock_reads w))\<rparr>),
           clock_reads := Suc (clock_reads w)\<rparr>) = (q, w2)"
      by (cases "emit m ''after_send'' r
        (w\<lparr>ext := x1,
           trace := trace w @ [Transport_call r (heap w r) (h1 r)],
           heap := h1(r := (h1 r)\<lparr>status := SENT, sent_at := Some (now en (clock_reads w))\<rparr>),
           clock_reads := Suc (clock_reads w)\<rparr>)")
    from assms send_deliver_returned [OF call [unfolded None]] em
    have "w1 = w2 \<and> ((q = None \<and> res = Inr r \<and>
            m1 = m\<lparr>sent_emails := dict_set (sent_emails m) (email_id (heap w1 r)) r\<rparr>) \<or>
           (\<exists>err'. q = Some err' \<and> res = Inl err' \<and> m1 = m))"
      by (cases q) (auto simp: send_store_def)
    with resolved [OF call, of "''after_send''" _ q] None em show thesis by blast
  next
    case (Some err)
    show thesis
    proof (cases "is_Exception err")
      case True
      obtain q w2 where em: "emit m ''on_error'' r
          (w\<lparr>ext := x1,
             trace := trace w @ [Transport_call r (heap w r) (h1 r)],
             heap := h1(r := (h1 r)\<lparr>status := FAILED, error := Some (str_exn err)\<rparr>)\<rparr>) = (q, w2)"
        by (cases "emit m ''on_error'' r
          (w\<lparr>ext := x1,
             trace := trace w @ [Transport_call r (heap w r) (h1 r)],
             heap := h1(r := (h1 r)\<lparr>status := FAILED, error := Some (str_exn err)\<rparr>)\<rparr>)")
      from assms send_deliver_raised [OF call [unfolded Some] True] em
      have "w1 = w2 \<and> ((q = None \<and> res = Inr r \<and>
              m1 = m\<lparr>sent_emails := dict_set (sent_emails m) (email_id (heap w1 r)) r\<rparr>) \<or>
             (\<exists>err'. q = Some err' \<and> res = Inl err' \<and> m1 = m))"
        by (cases q) (auto simp: send_store_def)
      with resolved [OF call, of "''on_error''" _ q] Some True em show thesis by blast
    next
      case False
      from assms send_deliver_escaped [OF call [unfolded Some] False]
      have "res = Inl err" "m1 = m"
        "w1 = w\<lparr>ext := x1, heap := h1,
                 trace := trace w @ [Transport_call r (heap w r) (h1 r)]\<rparr>"
        by simp_all
      with escaped [OF call [unfolded Some] False] show thesis by blast
    qed
  qed
qed

lemma send_cases:
  assumes "send en m to_arg subj btext bhtml kw w = (res, m1, w1)"
  obtains (unprepared) err where
      "send_prepare en m to_arg subj btext bhtml kw w = (Inl err, w1)" and "res = Inl err"
      and "m1 = m"
  | (prepared) r w0 where
      "send_prepare en m to_arg subj btext bhtml kw w = (Inr r, w0)"
      and "send_deliver en m r w0 = (res, m1, w1)"
proof -
  obtain p w0 where prep: "send_prepare en m to_arg subj btext bhtml kw w = (p, w0)"
    by (cases "send_prepare en m to_arg subj btext bhtml kw w")
  show thesis
  proof (cases p)
    case (Inl err)
    with assms prep have "res = Inl err" "m1 = m" "w1 = w0" by (simp_all add: send_def)
    with unprepared prep Inl show thesis by simp
  next
    case (Inr r)
    with assms prep have "send_deliver en m r w0 = (res, m1, w1)" by (simp add: send_def)
    with prepared prep Inr show thesis by simp
  qed
qed

section \<open>What a send leaves alone\<close>

lemma send_prepare_counters:
  assumes "send_prepare en m to_arg subj btext bhtml kw w = (res, w1)"
  shows "next_ref w \<le> next_ref w1" and "transport_calls w1 = transport_calls w"
    and "res = Inr r \<Longrightarrow> r = next_ref w \<and> next_ref w1 = Suc (next_ref w)"
proof -
  have "next_ref w \<le> next_ref w1 \<and> transport_calls w1 = transport_calls w \<and>
      (res = Inr r \<longrightarrow> r = next_ref w \<and> next_ref w1 = Suc (next_ref w))"
    using assms
  proof (cases rule: send_prepare_cases)
    case (rejected err)
    then show ?thesis by (simp add: transport_calls_def)
  next
    case (built e w0 q w3)
    from emit_counters [OF built(5)] have n: "next_ref w3 = Suc (next_ref w)" by simp
    from emit_transport_calls [OF built(5)] built(4)
    have t: "transport_calls w3 = transport_calls w" by (simp add: transport_calls_def)
    from built(6) n t show ?thesis by (auto simp: transport_calls_def)
  qed
  then show "next_ref w \<le> next_ref w1" and "transport_calls w1 = transport_calls w"
    and "res = Inr r \<Longrightarrow> r = next_ref w \<and> next_ref w1 = Suc (next_ref w)"
    by simp_all
qed


lemma send_deliver_counters:
  assumes "send_deliver en m r w = (res, m1, w1)"
  shows "next_ref w1 = next_ref w"
    and "res = Inr r' \<Longrightarrow> r' = r \<and> transport_calls w1 = Suc (transport_calls w)"
proof -
  have "next_ref w1 = next_ref w \<and>
      (res = Inr r' \<longrightarrow> r' = r \<and> transport_calls w1 = Suc (transport_calls w))"
    using assms
  proof (cases rule: send_deliver_cases)
    case (escaped err h1 x1)
    then show ?thesis by simp
  next
    case (resolved p h1 x1 event wr q)
    from resolved(2) have wr: "next_ref wr = next_ref w"
      "transport_calls wr = Suc (transport_calls w)"
      by (auto simp: transport_calls_def)
    from emit_counters [OF resolved(3)] emit_transport_calls [OF resolved(3)] wr resolved(4)
    show ?thesis by auto
  qed
  then show "next_ref w1 = next_ref w"
    and "res = Inr r' \<Longrightarrow> r' = r \<and> transport_calls w1 = Suc (transport_calls w)"
    by simp_all
qed


lemma send_deliver_mailer:
  assumes "send_deliver en m r w = (res, m1, w1)"
  shows "(\<exists>err. res = Inl err \<and> m1 = m) \<or>
         (res = Inr r \<and> m1 = m\<lparr>sent_emails := dict_set (sent_emails m) (email_id (heap w1 r)) r\<rparr>)"
  using assms
proof (cases rule: send_deliver_cases)
  case (escaped err h1 x1)
  then show ?thesis by simp
next
  case (resolved p h1 x1 event wr q)
  from resolved(4) show ?thesis by auto
qed

lemma send_counters:
  assumes "send en m to_arg subj btext bhtml kw w = (res, m1, w1)"
  shows "next_ref w \<le> next_ref w1"
    and "res = Inr r \<Longrightarrow> r = next_ref w \<and> next_ref w1 = Suc (next_ref w) \<and>
           transport_calls w1 = Suc (transport_calls w)"
proof -
  have "next_ref w \<le> next_ref w1 \<and>
      (res = Inr r \<longrightarrow> r = next_ref w \<and> next_ref w1 = Suc (next_ref w) \<and>
         transport_calls w1 = Suc (transport_calls w))"
    using assms
  proof (cases rule: send_cases)
    case (unprepared err)
    from send_prepare_counters(1) [OF unprepared(1)] unprepared(2) show ?thesis by simp
  next
    case (prepared r0 w0)
    from send_prepare_counters(3) [OF prepared(1), of r0]
      send_prepare_counters(2) [OF prepared(1)]
    have p: "r0 = next_ref w" "next_ref w0 = Suc (next_ref w)"
      "transport_calls w0 = transport_calls w"
      by simp_all
    from send_deliver_counters(1) [OF prepared(2)] send_deliver_counters(2) [OF prepared(2), of r] p
    show ?thesis by auto
  qed
  then show "next_ref w \<le> next_ref w1"
    and "res = Inr r \<Longrightarrow> r = next_ref w \<and> next_ref w1 = Suc (next_ref w) \<and>
           transport_calls w1 = Suc (transport_calls w)"
    by simp_all
qed


text \<open>A call of \<open>send\<close> changes nothing of the mailer but the table.\<close>

lemma send_mailer:
  assumes "send en m to_arg subj btext bhtml kw w = (res, m1, w1)"
  shows "(\<exists>err. res = Inl err \<and> m1 = m) \<or>
         (\<exists>r. res = Inr r \<and>
            m1 = m\<lparr>sent_emails := dict_set (sent_emails m) (email_id (heap w1 r)) r\<rparr>)"
  using assms
proof (cases rule: send_cases)
  case (unprepared err)
  then show ?thesis by simp
next
  case (prepared r0 w0)
  from send_deliver_mailer [OF prepared(2)] show ?thesis by auto
qed

lemma send_callables:
  assumes "send en m to_arg subj btext bhtml kw w = (res, m1, w1)"
  shows "callables m1 = callables m"
  using send_mailer [OF assms] by (auto simp: callables_def all_hooks_def)

section \<open>Bulk sends\<close>

lemma send_unpacked_accepts:
  assumes "data_ok d" and "polite m"
  shows "\<exists>r m1 w1. send_unpacked en m d w = (Inr r, m1, w1)"
proof -
  from assms(1) obtain to_arg subj where d: "d_to d = Some to_arg" "d_subject d = Some subj"
    and kw: "kwargs_ok (d_kwargs d)"
    by (auto simp: data_ok_def)
  from send_accepts [OF kw assms(2)] d show ?thesis by (simp add: send_unpacked_def)
qed

lemma send_unpacked_transport_calls:
  assumes "send_unpacked en m d w = (Inr r, m1, w1)"
  shows "transport_calls w1 = Suc (transport_calls w)"
  using assms
  by (auto simp: send_unpacked_def split: option.splits dest: send_counters(2))

lemma send_unpacked_polite:
  assumes "send_unpacked en m d w = (res, m1, w1)" and "polite m"
  shows "polite m1"
proof -
  from assms(1) have "callables m1 = callables m"
    by (auto simp: send_unpacked_def split: option.splits dest: send_callables)
  with assms(2) show ?thesis by (simp add: polite_def)
qed

lemma sends_in_order_exists:
  "\<forall>d\<in>set ds. data_ok d \<Longrightarrow> polite m \<Longrightarrow> \<exists>rs m2 w2. sends_in_order en m w ds rs m2 w2"
proof (induction ds arbitrary: m w)
  case Nil
  show ?case using sends_in_order.no_entry by blast
next
  case (Cons d ds)
  from Cons.prems have "data_ok d" by simp
  from send_unpacked_accepts [OF this Cons.prems(2)]
  obtain r m1 w1 where first: "send_unpacked en m d w = (Inr r, m1, w1)" by blast
  from send_unpacked_polite [OF first Cons.prems(2)] have p1: "polite m1" .
  from Cons.prems have "\<forall>d\<in>set ds. data_ok d" by simp
  from Cons.IH [OF this p1] obtain rs m2 w2 where "sends_in_order en m1 w1 ds rs m2 w2"
    by blast
  with first have "sends_in_order en m w (d # ds) (r # rs) m2 w2"
    by (rule sends_in_order.entry)
  then show ?case by blast
qed

lemma sends_in_order_loop:
  "sends_in_order en m w ds rs m2 w2 \<Longrightarrow>
   send_bulk_loop en m ds results w = (Inr (results @ rs), m2, w2)"
  by (induction arbitrary: results rule: sends_in_order.induct) simp_all

lemma sends_in_order_length:
  "sends_in_order en m w ds rs m2 w2 \<Longrightarrow> length rs = length ds"
  by (induction rule: sends_in_order.induct) simp_all

lemma sends_in_order_transport_calls:
  "sends_in_order en m w ds rs m2 w2 \<Longrightarrow> transport_calls w2 = transport_calls w + length ds"
  by (induction rule: sends_in_order.induct) (simp_all add: send_unpacked_transport_calls)

text \<open>
  Claim C8, with its counterexample. Two sets of arguments that \<open>send\<close> accepts, on a
  mailer whose transport is interrupted from the keyboard: the exception is no instance
  of \<open>Exception\<close>, so it leaves \<open>send\<close> and with it \<open>send_bulk\<close>, which returns
  no result; the transport has been called once, for the first entry only, and nothing
  is stored.
\<close>

theorem send_bulk_counterexample:
  "data_ok (simple_data ''a@example.com'' ''hello'') \<and>
   data_ok (simple_data ''b@example.com'' ''hello'') \<and>
   fst (send_bulk test_env interrupted_mailer
     [simple_data ''a@example.com'' ''hello'', simple_data ''b@example.com'' ''hello'']
     (world0 0)) = Inl KeyboardInterrupt \<and>
   transport_calls (snd (snd (send_bulk test_env interrupted_mailer
     [simple_data ''a@example.com'' ''hello'', simple_data ''b@example.com'' ''hello'']
     (world0 0)))) = 1 \<and>
   sent_emails (fst (snd (send_bulk test_env interrupted_mailer
     [simple_data ''a@example.com'' ''hello'', simple_data ''b@example.com'' ''hello'']
     (world0 0)))) = []"
  by (simp add: data_ok_def kwargs_ok_def send_bulk_def send_unpacked_def simple_data_def
      send_def send_prepare_def send_deliver_def send_store_def Let_def Email_init_def
      no_kwargs_def emit_def interrupted_mailer_def add_hook_def Mailer_init_def
      interrupted_transport_def counting_hook_def world0_def transport_calls_def)

text \<open>
  Claim C8 as amended. On a mailer whose transport and hooks raise nothing but
  instances of \<open>Exception\<close>, and for a list of K sets of arguments that \<open>send\<close>
  accepts, \<open>send_bulk\<close> returns K messages; they are the results of calling \<open>send\<close>
  once per entry in the order of the list, the result of each entry at the position of
  the entry; and the transport is called K times, whatever it answered for the entries
  before: a failed send does not stop the sends after it.
\<close>

theorem send_bulk_in_order:
  assumes "polite m" and "\<forall>d\<in>set emails. data_ok d"
  shows "\<exists>rs m2 w2.
           send_bulk en m emails w = (Inr rs, m2, w2) \<and>
           length rs = length emails \<and>
           sends_in_order en m w emails rs m2 w2 \<and>
           transport_calls w2 = transport_calls w + length emails"
proof -
  obtain rs m2 w2 where run: "sends_in_order en m w emails rs m2 w2"
    using sends_in_order_exists [OF assms(2) assms(1)] by blast
  have "send_bulk en m emails w = (Inr rs, m2, w2)"
    using sends_in_order_loop [OF run, of "[]"] by (simp add: send_bulk_def)
  with run show ?thesis
    using sends_in_order_length [OF run] sends_in_order_transport_calls [OF run] by blast
qed

lemma flaky_mailer_polite: "polite flaky_mailer"
  by (simp add: polite_def callables_def all_hooks_def flaky_mailer_def add_hook_def
      Mailer_init_def raises_only_Exception_def flaky_transport_def counting_hook_def)

lemma flaky_bulk:
  "fst (send_bulk test_env flaky_mailer
     [simple_data ''a@example.com'' ''boom'', simple_data ''b@example.com'' ''hello'']
     (world0 0)) = Inr [0, 1] \<and>
   map (\<lambda>r. subject (heap (snd (snd (send_bulk test_env flaky_mailer
     [simple_data ''a@example.com'' ''boom'', simple_data ''b@example.com'' ''hello'']
     (world0 0)))) r)) [0, 1] = [''boom'', ''hello''] \<and>
   map (\<lambda>r. status (heap (snd (snd (send_bulk test_env flaky_mailer
     [simple_data ''a@example.com'' ''boom'', simple_data ''b@example.com'' ''hello'']
     (world0 0)))) r)) [0, 1] = [FAILED, SENT]"
  by (simp add: send_bulk_def send_unpacked_def simple_data_def
      send_def send_prepare_def send_deliver_def send_store_def Let_def Email_init_def
      no_kwargs_def emit_def flaky_mailer_def add_hook_def Mailer_init_def
      flaky_transport_def counting_hook_def world0_def)

theorem send_bulk_in_order_witness:
  "polite flaky_mailer \<and>
   data_ok (simple_data ''a@example.com'' ''boom'') \<and>
   data_ok (simple_data ''b@example.com'' ''hello'') \<and>
   (\<exists>rs m2 w2.
      send_bulk test_env flaky_mailer
        [simple_data ''a@example.com'' ''boom'', simple_data ''b@example.com'' ''hello''] (world0 0)
        = (Inr rs, m2, w2) \<and>
      rs = [0, 1] \<and>
      map (\<lambda>r. subject (heap w2 r)) rs = [''boom'', ''hello''] \<and>
      map (\<lambda>r. status (heap w2 r)) rs = [FAILED, SENT] \<and>
      transport_calls w2 = 2)"
proof -
  have ok: "\<forall>d\<in>set [simple_data ''a@example.com'' ''boom'', simple_data ''b@example.com'' ''hello'']. data_ok d"
    by (simp add: data_ok_def simple_data_def kwargs_ok_def no_kwargs_def)
  obtain rs m2 w2 where bulk: "send_bulk test_env flaky_mailer
        [simple_data ''a@example.com'' ''boom'', simple_data ''b@example.com'' ''hello''] (world0 0)
        = (Inr rs, m2, w2)"
    and calls: "transport_calls w2 = transport_calls (world0 0 :: nat world) + 2"
    using send_bulk_in_order [OF flaky_mailer_polite ok, of test_env "world0 0"] by auto
  have "transport_calls (world0 0 :: nat world) = 0" by (simp add: transport_calls_def world0_def)
  with calls have two: "transport_calls w2 = 2" by simp
  from flaky_bulk [unfolded bulk]
  have "rs = [0, 1]" "map (\<lambda>r. subject (heap w2 r)) [0, 1] = [''boom'', ''hello'']"
    "map (\<lambda>r. status (heap w2 r)) [0, 1] = [FAILED, SENT]"
    by simp_all
  with bulk two ok flaky_mailer_polite show ?thesis by simp
qed

section \<open>The message table and stats\<close>















section \<open>Two handlers of after_send\<close>

lemma run_two_handlers:
  assumes "h1 r (heap v) (ext v) = (p1, ha, xa)" and "h2 r ha xa = (p2, hb, xb)"
    and "\<forall>err. p1 = Some err \<longrightarrow> is_Exception err"
    and "\<forall>err. p2 = Some err \<longrightarrow> is_Exception err"
  shows "\<exists>v2. run_handlers event 0 [h1, h2] r v = (None, v2) \<and> heap v2 = hb \<and> ext v2 = xb \<and>
           trace v2 = trace v @ [Hook_call event 0 r (heap v r) (ha r),
                                 Hook_call event 1 r (ha r) (hb r)]"
  using assms by (cases p1; cases p2) (simp_all add: Let_def)

lemma run_two_handlers_escape:
  assumes "h1 r (heap v) (ext v) = (p1, ha, xa)" and "h2 r ha xa = (p2, hb, xb)"
    and "(\<exists>err. p1 = Some err \<and> \<not> is_Exception err) \<or>
         (\<exists>err. p2 = Some err \<and> \<not> is_Exception err)"
  shows "\<exists>err v2. run_handlers event 0 [h1, h2] r v = (Some err, v2) \<and> \<not> is_Exception err"
proof (cases "\<exists>err. p1 = Some err \<and> \<not> is_Exception err")
  case True
  then obtain err where "p1 = Some err" "\<not> is_Exception err" by blast
  with assms(1) show ?thesis by (simp add: Let_def)
next
  case False
  with assms(3) obtain err where p2: "p2 = Some err" "\<not> is_Exception err" by blast
  from False have "p1 = None \<or> (\<exists>e. p1 = Some e \<and> is_Exception e)" by (cases p1) auto
  with assms(1,2) p2 show ?thesis by (auto simp: Let_def)
qed

text \<open>
  Claim C7, with its counterexample: the first of two \<open>after_send\<close> handlers resets
  the status of the message it is handed, so the second handler, called after it
  with the same object, finds the status \<open>pending\<close>, and so does the caller of
  \<open>send\<close>. The three calls are recorded with the object handed over and its status
  at the beginning and at the end of the call.
\<close>

theorem after_send_hooks_counterexample:
  "fst (send test_env resetting_mailer [Str ''a@example.com''] ''S'' [] [] no_kwargs (world0 0))
     = Inr 0 \<and>
   map event_label (trace (snd (snd
      (send test_env resetting_mailer [Str ''a@example.com''] ''S'' [] [] no_kwargs (world0 0)))))
     = [(''transport'', 0), (''after_send'', 0), (''after_send'', 1)] \<and>
   map event_ref (trace (snd (snd
      (send test_env resetting_mailer [Str ''a@example.com''] ''S'' [] [] no_kwargs (world0 0)))))
     = [0, 0, 0] \<and>
   map event_statuses (trace (snd (snd
      (send test_env resetting_mailer [Str ''a@example.com''] ''S'' [] [] no_kwargs (world0 0)))))
     = [[SENDING, SENDING], [SENT, PENDING], [PENDING, PENDING]] \<and>
   status (heap (snd (snd
      (send test_env resetting_mailer [Str ''a@example.com''] ''S'' [] [] no_kwargs (world0 0)))) 0)
     = PENDING"
  by (simp add: send_def send_prepare_def send_deliver_def send_store_def Let_def Email_init_def
      no_kwargs_def emit_def resetting_mailer_def add_hook_def Mailer_init_def
      flaky_transport_def resetting_hook_def counting_hook_def world0_def)

text \<open>
  Claim C7 as amended. Take a mailer whose \<open>after_send\<close> handlers are \<open>h1\<close> then
  \<open>h2\<close>, and a send whose transport returns; the handlers act on the messages and
  on their own state, not on the hook lists of the mailer. When neither handler raises
  an exception that is no instance of \<open>Exception\<close>, \<open>send\<close> returns the message
  object that it created, and after the transport it has called \<open>h1\<close> and then
  \<open>h2\<close>, each once and nothing else, both with that same object: \<open>h1\<close> is handed
  it with the status \<open>sent\<close> and \<open>sent_at\<close> set; \<open>h2\<close> is handed it as
  \<open>h1\<close> left it, which has the status \<open>sent\<close> when \<open>h1\<close> changes no status and
  the same \<open>sent_at\<close> when \<open>h1\<close> changes no \<open>sent_at\<close>; and the caller gets it
  as \<open>h2\<close> left it, stored in the table under its id. When one of the handlers raises
  an exception that is no instance of \<open>Exception\<close>, that send is not successful: the
  exception leaves \<open>send\<close>.
\<close>

theorem after_send_hooks_in_order:
  assumes "dict_get (hooks m) ''after_send'' = Some [h1, h2]"
    and "send_prepare en m to_arg subj btext bhtml kw w = (Inr r, w1)"
    and "transport m r (heap w1) (ext w1) = (None, ht, xt)"
    and "h1 r (ht(r := (ht r)\<lparr>status := SENT, sent_at := Some (now en (clock_reads w1))\<rparr>)) xt
           = (p1, ha, xa)"
    and "h2 r ha xa = (p2, hb, xb)"
  shows "((\<forall>err. p1 = Some err \<longrightarrow> is_Exception err) \<and>
          (\<forall>err. p2 = Some err \<longrightarrow> is_Exception err) \<longrightarrow>
            (\<exists>m1 w2.
               send en m to_arg subj btext bhtml kw w = (Inr r, m1, w2) \<and>
               trace w2 = trace w1 @
                 [Transport_call r (heap w1 r) (ht r),
                  Hook_call ''after_send'' 0 r
                    ((ht r)\<lparr>status := SENT, sent_at := Some (now en (clock_reads w1))\<rparr>) (ha r),
                  Hook_call ''after_send'' 1 r (ha r) (hb r)] \<and>
               heap w2 = hb \<and> ext w2 = xb \<and> get_email m1 (email_id (hb r)) = Some r)) \<and>
         (keeps status h1 \<longrightarrow> status (ha r) = SENT) \<and>
         (keeps sent_at h1 \<longrightarrow> sent_at (ha r) = Some (now en (clock_reads w1))) \<and>
         ((\<exists>err. p1 = Some err \<and> \<not> is_Exception err) \<or>
          (\<exists>err. p2 = Some err \<and> \<not> is_Exception err) \<longrightarrow>
            (\<exists>err w2. send en m to_arg subj btext bhtml kw w = (Inl err, m, w2) \<and>
               \<not> is_Exception err))"
proof -
  let ?wr = "w1\<lparr>ext := xt,
                trace := trace w1 @ [Transport_call r (heap w1 r) (ht r)],
                heap := ht(r := (ht r)\<lparr>status := SENT,
                                         sent_at := Some (now en (clock_reads w1))\<rparr>),
                clock_reads := Suc (clock_reads w1)\<rparr>"
  have first: "h1 r (heap ?wr) (ext ?wr) = (p1, ha, xa)" using assms(4) by simp
  have em: "emit m ''after_send'' r ?wr = run_handlers ''after_send'' 0 [h1, h2] r ?wr"
    by (simp add: emit_def assms(1))
  have deliver: "send en m to_arg subj btext bhtml kw w =
      (case emit m ''after_send'' r ?wr of
         (Some err, w2) \<Rightarrow> (Inl err, m, w2)
       | (None, w2) \<Rightarrow> send_store m r w2)"
    unfolding send_prepared [OF assms(2)] by (rule send_deliver_returned [OF assms(3)])
  have returns: "\<exists>m1 w2.
               send en m to_arg subj btext bhtml kw w = (Inr r, m1, w2) \<and>
               trace w2 = trace w1 @
                 [Transport_call r (heap w1 r) (ht r),
                  Hook_call ''after_send'' 0 r
                    ((ht r)\<lparr>status := SENT, sent_at := Some (now en (clock_reads w1))\<rparr>) (ha r),
                  Hook_call ''after_send'' 1 r (ha r) (hb r)] \<and>
               heap w2 = hb \<and> ext w2 = xb \<and> get_email m1 (email_id (hb r)) = Some r"
    if ok: "(\<forall>err. p1 = Some err \<longrightarrow> is_Exception err) \<and>
          (\<forall>err. p2 = Some err \<longrightarrow> is_Exception err)"
  proof -
    from ok have ok1: "\<forall>err. p1 = Some err \<longrightarrow> is_Exception err"
      and ok2: "\<forall>err. p2 = Some err \<longrightarrow> is_Exception err" by simp_all
    from run_two_handlers [of h1 r "?wr" p1 ha xa h2 p2 hb xb "''after_send''",
        OF first assms(5) ok1 ok2]
    obtain v2 where run: "run_handlers ''after_send'' 0 [h1, h2] r ?wr = (None, v2)"
      and v2: "heap v2 = hb" "ext v2 = xb"
      and tr: "trace v2 = trace ?wr @ [Hook_call ''after_send'' 0 r (heap ?wr r) (ha r),
                                 Hook_call ''after_send'' 1 r (ha r) (hb r)]"
      by blast
    from deliver em run
    have "send en m to_arg subj btext bhtml kw w =
        (Inr r, m\<lparr>sent_emails := dict_set (sent_emails m) (email_id (heap v2 r)) r\<rparr>, v2)"
      by (simp add: send_store_def)
    moreover have "get_email (m\<lparr>sent_emails := dict_set (sent_emails m) (email_id (heap v2 r)) r\<rparr>)
        (email_id (hb r)) = Some r"
      using v2 by (simp add: get_email_def dict_get_dict_set)
    moreover from tr have "trace v2 = trace w1 @
                 [Transport_call r (heap w1 r) (ht r),
                  Hook_call ''after_send'' 0 r
                    ((ht r)\<lparr>status := SENT, sent_at := Some (now en (clock_reads w1))\<rparr>) (ha r),
                  Hook_call ''after_send'' 1 r (ha r) (hb r)]"
      by simp
    ultimately show ?thesis using v2 by blast
  qed
  have st: "status (ha r) = SENT" if k: "keeps status h1"
    using keeps_result [OF k assms(4), of r] by simp
  have at: "sent_at (ha r) = Some (now en (clock_reads w1))" if k: "keeps sent_at h1"
    using keeps_result [OF k assms(4), of r] by simp
  have leaves: "\<exists>err w2. send en m to_arg subj btext bhtml kw w = (Inl err, m, w2) \<and>
               \<not> is_Exception err"
    if bad: "(\<exists>err. p1 = Some err \<and> \<not> is_Exception err) \<or>
          (\<exists>err. p2 = Some err \<and> \<not> is_Exception err)"
  proof -
    from run_two_handlers_escape [of h1 r "?wr" p1 ha xa h2 p2 hb xb "''after_send''",
        OF first assms(5) bad]
    obtain err v2 where run: "run_handlers ''after_send'' 0 [h1, h2] r ?wr = (Some err, v2)"
      and err: "\<not> is_Exception err"
      by blast
    from deliver em run have "send en m to_arg subj btext bhtml kw w = (Inl err, m, v2)"
      by simp
    with err show ?thesis by blast
  qed
  from returns st at leaves show ?thesis by blast
qed

lemma ordered_mailer_parts:
  "dict_get (hooks ordered_mailer) ''after_send'' = Some [counting_hook, doubling_hook]"
  "transport ordered_mailer = flaky_transport"
  by (simp_all add: ordered_mailer_def add_hook_def Mailer_init_def)

lemma leaving_mailer_parts:
  "dict_get (hooks leaving_mailer) ''after_send'' = Some [exiting_hook, counting_hook]"
  "transport leaving_mailer = flaky_transport"
  by (simp_all add: leaving_mailer_def add_hook_def Mailer_init_def)

theorem after_send_hooks_in_order_witness:
  "keeps status counting_hook \<and> keeps sent_at counting_hook \<and>
   (\<exists>m1 w2.
      send test_env ordered_mailer [Str ''a@example.com''] ''S'' [] [] no_kwargs (world0 0)
        = (Inr 0, m1, w2) \<and>
      map event_label (trace w2)
        = [(''transport'', 0), (''after_send'', 0), (''after_send'', 1)] \<and>
      map event_ref (trace w2) = [0, 0, 0] \<and>
      map event_statuses (trace w2) = [[SENDING, SENDING], [SENT, SENT], [SENT, SENT]] \<and>
      status (heap w2 0) = SENT \<and> ext w2 = 2) \<and>
   (\<exists>err m1 w2.
      send test_env leaving_mailer [Str ''a@example.com''] ''S'' [] [] no_kwargs (world0 0)
        = (Inl err, m1, w2) \<and> \<not> is_Exception err)"
proof -
  have k1: "keeps status counting_hook" by (simp add: keeps_def counting_hook_def)
  have k2: "keeps sent_at counting_hook" by (simp add: keeps_def counting_hook_def)
  have "\<exists>w1. send_prepare test_env ordered_mailer [Str ''a@example.com''] ''S'' [] [] no_kwargs
      (world0 0) = (Inr 0, w1) \<and> status (heap w1 0) = SENDING \<and> ext w1 = 0 \<and> trace w1 = [] \<and>
      subject (heap w1 0) = ''S''"
    by (simp add: send_prepare_def Let_def Email_init_def no_kwargs_def emit_def
        ordered_mailer_def add_hook_def Mailer_init_def world0_def)
  then obtain w1 where prep:
    "send_prepare test_env ordered_mailer [Str ''a@example.com''] ''S'' [] [] no_kwargs (world0 0)
       = (Inr 0, w1)"
    and w1: "status (heap w1 0) = SENDING" "ext w1 = 0" "trace w1 = []"
    and subj: "subject (heap w1 0) = ''S''"
    by blast
  have call: "transport ordered_mailer 0 (heap w1) (ext w1) = (None, heap w1, 0)"
    using w1 subj by (simp add: ordered_mailer_parts flaky_transport_def)
  have c1: "counting_hook 0
      ((heap w1)(0 := (heap w1 0)\<lparr>status := SENT,
                                    sent_at := Some (now test_env (clock_reads w1))\<rparr>)) 0
      = (None, (heap w1)(0 := (heap w1 0)\<lparr>status := SENT,
                                    sent_at := Some (now test_env (clock_reads w1))\<rparr>), 1)"
    by (simp add: counting_hook_def)
  have c2: "doubling_hook 0
      ((heap w1)(0 := (heap w1 0)\<lparr>status := SENT,
                                    sent_at := Some (now test_env (clock_reads w1))\<rparr>)) 1
      = (None, (heap w1)(0 := (heap w1 0)\<lparr>status := SENT,
                                    sent_at := Some (now test_env (clock_reads w1))\<rparr>), 2)"
    by (simp add: doubling_hook_def)
  let ?sent = "(heap w1 0)\<lparr>status := SENT, sent_at := Some (now test_env (clock_reads w1))\<rparr>"
  let ?hb = "(heap w1)(0 := ?sent)"
  have quiet: "(\<forall>err. (None :: exn option) = Some err \<longrightarrow> is_Exception err) \<and>
      (\<forall>err. (None :: exn option) = Some err \<longrightarrow> is_Exception err)"
    by simp
  have "\<exists>m1 w2.
      send test_env ordered_mailer [Str ''a@example.com''] ''S'' [] [] no_kwargs (world0 0)
        = (Inr 0, m1, w2) \<and>
      trace w2 = trace w1 @
        [Transport_call 0 (heap w1 0) (heap w1 0),
         Hook_call ''after_send'' 0 0 ?sent (?hb 0),
         Hook_call ''after_send'' 1 0 (?hb 0) (?hb 0)] \<and>
      heap w2 = ?hb \<and> ext w2 = 2 \<and> get_email m1 (email_id (?hb 0)) = Some 0"
    using after_send_hooks_in_order [OF ordered_mailer_parts(1) prep call c1 c2] quiet by blast
  then obtain m1 w2 where sent:
    "send test_env ordered_mailer [Str ''a@example.com''] ''S'' [] [] no_kwargs (world0 0)
       = (Inr 0, m1, w2)"
    and tr: "trace w2 = trace w1 @
        [Transport_call 0 (heap w1 0) (heap w1 0),
         Hook_call ''after_send'' 0 0 ?sent (?hb 0),
         Hook_call ''after_send'' 1 0 (?hb 0) (?hb 0)]"
    and hp: "heap w2 = ?hb" and ex: "ext w2 = 2"
    by blast
  from hp have h0: "heap w2 0 = ?sent" by simp
  from tr h0 ex w1
  have "map event_label (trace w2)
        = [(''transport'', 0), (''after_send'', 0), (''after_send'', 1)] \<and>
      map event_ref (trace w2) = [0, 0, 0] \<and>
      map event_statuses (trace w2) = [[SENDING, SENDING], [SENT, SENT], [SENT, SENT]] \<and>
      status (heap w2 0) = SENT \<and> ext w2 = 2"
    by simp
  with sent have good: "\<exists>m1 w2.
      send test_env ordered_mailer [Str ''a@example.com''] ''S'' [] [] no_kwargs (world0 0)
        = (Inr 0, m1, w2) \<and>
      map event_label (trace w2)
        = [(''transport'', 0), (''after_send'', 0), (''after_send'', 1)] \<and>
      map event_ref (trace w2) = [0, 0, 0] \<and>
      map event_statuses (trace w2) = [[SENDING, SENDING], [SENT, SENT], [SENT, SENT]] \<and>
      status (heap w2 0) = SENT \<and> ext w2 = 2"
    by simp
  have "\<exists>w1. send_prepare test_env leaving_mailer [Str ''a@example.com''] ''S'' [] [] no_kwargs
      (world0 0) = (Inr 0, w1) \<and> ext w1 = 0 \<and> subject (heap w1 0) = ''S''"
    by (simp add: send_prepare_def Let_def Email_init_def no_kwargs_def emit_def
        leaving_mailer_def add_hook_def Mailer_init_def world0_def)
  then obtain v1 where prep':
    "send_prepare test_env leaving_mailer [Str ''a@example.com''] ''S'' [] [] no_kwargs (world0 0)
       = (Inr 0, v1)"
    and v1: "ext v1 = 0" "subject (heap v1 0) = ''S''"
    by blast
  have call': "transport leaving_mailer 0 (heap v1) (ext v1) = (None, heap v1, 0)"
    using v1 by (simp add: leaving_mailer_parts flaky_transport_def)
  have e1: "exiting_hook 0
      ((heap v1)(0 := (heap v1 0)\<lparr>status := SENT,
                                    sent_at := Some (now test_env (clock_reads v1))\<rparr>)) 0
      = (Some (SystemExit ''bye''),
         (heap v1)(0 := (heap v1 0)\<lparr>status := SENT,
                                    sent_at := Some (now test_env (clock_reads v1))\<rparr>), 0)"
    by (simp add: exiting_hook_def)
  have e2: "counting_hook 0
      ((heap v1)(0 := (heap v1 0)\<lparr>status := SENT,
                                    sent_at := Some (now test_env (clock_reads v1))\<rparr>)) 0
      = (None, (heap v1)(0 := (heap v1 0)\<lparr>status := SENT,
                                    sent_at := Some (now test_env (clock_reads v1))\<rparr>), 1)"
    by (simp add: counting_hook_def)
  from after_send_hooks_in_order [OF leaving_mailer_parts(1) prep' call' e1 e2]
  have bad: "\<exists>err m1 w2.
      send test_env leaving_mailer [Str ''a@example.com''] ''S'' [] [] no_kwargs (world0 0)
        = (Inl err, m1, w2) \<and> \<not> is_Exception err"
    by auto
  from k1 k2 good bad show ?thesis by blast
qed

end
